theory Spec2Isabelle
  imports Main "HOL-Library.Sublist"
begin

section \<open>Text and the regular expressions of the cleaner\<close>

text \<open>
  A Python \<open>str\<close> is a sequence of Unicode code points, so a line is a list of
  natural numbers. \<open>ascii\<close> writes such a line from an Isabelle string literal.
\<close>

type_synonym pystr = "nat list"

definition ascii :: "string \<Rightarrow> pystr" where
  "ascii s = map of_char s"

definition newline :: nat where
  "newline = 10"

text \<open>
  The class \<open>\s\<close> of a \<open>str\<close> pattern: the code points for which
  \<open>str.isspace\<close> holds.
\<close>

definition is_space :: "nat \<Rightarrow> bool" where
  "is_space c \<longleftrightarrow>
     (9 \<le> c \<and> c \<le> 13) \<or> (28 \<le> c \<and> c \<le> 32) \<or> c = 133 \<or> c = 160 \<or> c = 5760 \<or>
     (8192 \<le> c \<and> c \<le> 8202) \<or> c = 8232 \<or> c = 8233 \<or> c = 8239 \<or> c = 8287 \<or> c = 12288"

text \<open>
  Every pattern of \<open>remove_debug_logs.py\<close> has the shape \<open>^ ... $\<close>, where the
  dots are a concatenation of literal characters, \<open>\s*\<close>, \<open>\s+\<close> and
  \<open>[^)]*\<close>. A pattern is the list of these atoms, the two anchors being implied.
\<close>

datatype cls = Whitespace | AnyBut nat

datatype atom = Ch nat | Star cls | Plus cls

type_synonym regex = "atom list"

fun in_cls :: "cls \<Rightarrow> nat \<Rightarrow> bool" where
  "in_cls Whitespace c = is_space c"
| "in_cls (AnyBut d) c = (c \<noteq> d)"

text \<open>The atoms that cannot consume the code point \<open>c\<close> through a class.\<close>

definition atom_ok :: "nat \<Rightarrow> atom \<Rightarrow> bool" where
  "atom_ok c a = (case a of Ch d \<Rightarrow> True | Star k \<Rightarrow> \<not> in_cls k c | Plus k \<Rightarrow> \<not> in_cls k c)"

text \<open>
  \<open>re_match r s\<close> is the truth value of \<open>re.match(r, s)\<close>: some way of
  matching the atoms consumes a prefix of \<open>s\<close> after which \<open>$\<close> holds, that is,
  at the end of \<open>s\<close> or just before a newline that ends \<open>s\<close>. A starred class
  may stop anywhere, so every split is tried, as the backtracking engine does.
\<close>

fun re_match :: "regex \<Rightarrow> pystr \<Rightarrow> bool" where
  "re_match [] s = (s = [] \<or> s = [newline])"
| "re_match (Ch c # r) [] = False"
| "re_match (Ch c # r) (x # s) = (x = c \<and> re_match r s)"
| "re_match (Star k # r) [] = re_match r []"
| "re_match (Star k # r) (x # s) =
     (re_match r (x # s) \<or> (in_cls k x \<and> re_match (Star k # r) s))"
| "re_match (Plus k # r) [] = False"
| "re_match (Plus k # r) (x # s) = (in_cls k x \<and> re_match (Star k # r) s)"

definition lit :: "string \<Rightarrow> regex" where
  "lit s = map (\<lambda>c. Ch (of_char c)) s"

definition ws :: atom where
  "ws = Star Whitespace"

definition ws1 :: atom where
  "ws1 = Plus Whitespace"

text \<open>\<open>\([^)]*\)\<close>: a parenthesised argument list without a closing parenthesis inside.\<close>

definition call_args :: regex where
  "call_args = lit ''('' @ [Star (AnyBut (of_char CHR 0x29))] @ lit '')''"

text \<open>The pattern lists set up by \<open>DebugLogCleaner.__init__\<close>, in the source's order.\<close>

definition dart_patterns :: "regex list" where
  "dart_patterns =
    [ ws # lit ''print'' @ ws # call_args @ ws # lit '';'' @ [ws],
      ws # lit ''debugPrint'' @ ws # call_args @ ws # lit '';'' @ [ws],
      ws # lit ''developer.log'' @ ws # call_args @ ws # lit '';'' @ [ws],
      ws # lit ''if'' @ ws # lit ''('' @ ws # lit ''kDebugMode'' @ ws # lit '')'' @
        ws # lit ''print'' @ ws # call_args @ ws # lit '';'' @ [ws] ]"

definition swift_patterns :: "regex list" where
  "swift_patterns =
    [ ws # lit ''print'' @ ws # call_args @ [ws],
      ws # lit ''NSLog'' @ ws # call_args @ [ws],
      ws # lit ''os_log'' @ ws # call_args @ [ws] ]"

text \<open>The block patterns written inline in the two scanning loops.\<close>

definition dart_block_start :: regex where
  "dart_block_start =
     ws # lit ''if'' @ ws # lit ''('' @ ws # lit ''kDebugMode'' @ ws # lit '')'' @
     ws # lit ''{'' @ [ws]"

definition swift_block_start :: regex where
  "swift_block_start = ws # lit ''#if'' @ ws1 # lit ''DEBUG'' @ [ws]"

definition swift_block_end :: regex where
  "swift_block_end = ws # lit ''#endif'' @ [ws]"

section \<open>The line filters\<close>

text \<open>
  \<open>should_remove\<close> is the inner \<open>for pattern in ...: if re.match(pattern, line)\<close>
  loop: some pattern of the list matches the line.
\<close>

definition should_remove :: "regex list \<Rightarrow> pystr \<Rightarrow> bool" where
  "should_remove patterns line = list_ex (\<lambda>pattern. re_match pattern line) patterns"

definition open_brace :: nat where
  "open_brace = of_char CHR 0x7B"

definition close_brace :: nat where
  "close_brace = of_char CHR 0x7D"

text \<open>\<open>next_line.count('{') - next_line.count('}')\<close>, an unbounded integer.\<close>

definition brace_delta :: "pystr \<Rightarrow> int" where
  "brace_delta next_line =
     int (count_list next_line open_brace) - int (count_list next_line close_brace)"

text \<open>
  The cursor \<open>i\<close> of the loops is represented by the lines from \<open>i\<close> on.
  \<open>dart_skip\<close> is the inner loop
  \<open>while i < len(lines) and brace_count > 0\<close>; it returns the lines left when the
  loop ends.
\<close>

fun dart_skip :: "int \<Rightarrow> pystr list \<Rightarrow> pystr list" where
  "dart_skip brace_count [] = []"
| "dart_skip brace_count (next_line # rest) =
     (if brace_count > 0 then dart_skip (brace_count + brace_delta next_line) rest
      else next_line # rest)"

text \<open>
  \<open>dart_scan\<close> is the outer loop \<open>while i < len(lines)\<close> of
  \<open>clean_dart_file\<close>; its value is the list \<open>cleaned_lines\<close> built from the
  cursor on.
\<close>

function dart_scan :: "pystr list \<Rightarrow> pystr list" where
  "dart_scan [] = []"
| "dart_scan (line # rest) =
     (if re_match dart_block_start line then dart_scan (dart_skip 1 rest)
      else if should_remove dart_patterns line then dart_scan rest
      else line # dart_scan rest)"
  by pat_completeness auto
termination
proof (relation "measure length")
  fix line rest
  have "length (dart_skip c ls) \<le> length ls" for c ls
    by (induction ls arbitrary: c) (auto intro: le_SucI)
  then show "(dart_skip 1 rest, line # rest) \<in> measure length"
    by (simp add: less_Suc_eq_le)
qed simp_all

text \<open>
  \<open>swift_skip\<close> is the inner loop of \<open>clean_swift_file\<close>: it leaves the lines
  after the first \<open>#endif\<close> line, or nothing when there is none.
\<close>

fun swift_skip :: "pystr list \<Rightarrow> pystr list" where
  "swift_skip [] = []"
| "swift_skip (next_line # rest) =
     (if re_match swift_block_end next_line then rest else swift_skip rest)"

function swift_scan :: "pystr list \<Rightarrow> pystr list" where
  "swift_scan [] = []"
| "swift_scan (line # rest) =
     (if re_match swift_block_start line then swift_scan (swift_skip rest)
      else if should_remove swift_patterns line then swift_scan rest
      else line # swift_scan rest)"
  by pat_completeness auto
termination
proof (relation "measure length")
  fix line rest
  have "length (swift_skip ls) \<le> length ls" for ls
    by (induction ls) (auto intro: le_SucI)
  then show "(swift_skip rest, line # rest) \<in> measure length"
    by (simp add: less_Suc_eq_le)
qed simp_all

text \<open>\<open>lines_removed = original_count - len(cleaned_lines)\<close>.\<close>

definition lines_removed :: "pystr list \<Rightarrow> pystr list \<Rightarrow> int" where
  "lines_removed lines cleaned_lines = int (length lines) - int (length cleaned_lines)"

text \<open>
  The values the counter \<open>brace_count\<close> takes after each line of a skipped
  region, when it holds \<open>c\<close> before the first of them.
\<close>

fun running_counts :: "int \<Rightarrow> pystr list \<Rightarrow> int list" where
  "running_counts c [] = []"
| "running_counts c (l # ls) = (c + brace_delta l) # running_counts (c + brace_delta l) ls"

section \<open>Files, the console and the cleaner object\<close>

text \<open>
  A path is the tuple \<open>Path.parts\<close> of a POSIX path. The world holds what the
  script reaches through \<open>open\<close>, \<open>Path.rglob\<close>, \<open>Path.is_file\<close> and
  \<open>print\<close>:
  \<^item> \<open>files\<close>: the regular files, each with the list \<open>readlines\<close> returns for it.
    A list written by \<open>writelines\<close> is the list a later \<open>readlines\<close> returns:
    the cleaner writes subsequences of what it has read, in which every line but
    possibly the last ends with the only newline it contains;
  \<^item> \<open>read_fault\<close>: the exception that opening or reading a path raises, if any;
  \<^item> \<open>write_fault\<close>: the exception that opening for writing or \<open>writelines\<close>
    raises, if any, with the content the failed write leaves in the file;
  \<^item> \<open>stat_fault\<close>: the exception that \<open>is_file\<close> raises on a path, if any
    (\<open>Path.is_file\<close> answers \<open>False\<close> for a missing path and raises
    again every other \<open>OSError\<close>, such as a refused permission);
  \<^item> \<open>rglob\<close>: for a glob pattern, the paths found below the project root, relative
    to it, in traversal order (the walk itself does not raise: it passes over the
    directories it may not list);
  \<^item> \<open>print_fault\<close>: the exception that \<open>print\<close> raises for a message, given
    what the console holds, if any (an output stream that cannot encode the message, a
    closed pipe);
  \<^item> \<open>console\<close>: the messages printed so far;
  \<^item> \<open>opened_for_write\<close>: the paths on which \<open>open(file_path, 'w')\<close> was
    executed, in order.
\<close>

type_synonym path = "pystr list"

datatype exn = OSError string | UnicodeError string

datatype message =
    Banner | Rule | Scanning path | Blank | ProcessingDart | ProcessingSwift
  | Removed int pystr
  | ErrorProcessing pystr exn
  | SummaryHeader | SummaryRule
  | DartProcessed int | SwiftProcessed int | TotalRemoved int
  | Completed | Tip | NothingFound

record world =
  files :: "path \<rightharpoonup> pystr list"
  read_fault :: "path \<rightharpoonup> exn"
  write_fault :: "path \<rightharpoonup> exn \<times> pystr list"
  stat_fault :: "path \<rightharpoonup> exn"
  rglob :: "pystr \<Rightarrow> path list"
  print_fault :: "message list \<Rightarrow> message \<rightharpoonup> exn"
  console :: "message list"
  opened_for_write :: "path list"

record cleaner =
  project_root :: path
  dart_files_processed :: int
  swift_files_processed :: int
  total_lines_removed :: int

text \<open>\<open>DebugLogCleaner.__init__\<close>.\<close>

definition init :: "path \<Rightarrow> cleaner" where
  "init root = \<lparr>project_root = root, dart_files_processed = 0,
     swift_files_processed = 0, total_lines_removed = 0\<rparr>"

text \<open>
  \<open>file_path.name\<close>: the last part, or the empty string when there is no part or
  the only part is the root \<open>/\<close> or \<open>//\<close> (no other part contains a slash).
\<close>

definition name :: "path \<Rightarrow> pystr" where
  "name file_path =
     (case rev file_path of
        [] \<Rightarrow> []
      | part # _ \<Rightarrow> if part = ascii ''/'' \<or> part = ascii ''//'' then [] else part)"

text \<open>\<open>print(...)\<close>: \<open>Inl\<close> is the exception raised, \<open>Inr\<close> the world after it.\<close>

definition say :: "message \<Rightarrow> world \<Rightarrow> exn + world" where
  "say m w =
     (case print_fault w (console w) m of
        Some e \<Rightarrow> Inl e
      | None \<Rightarrow> Inr (w\<lparr>console := console w @ [m]\<rparr>))"

text \<open>\<open>with open(file_path, 'r', encoding='utf-8') as f: lines = f.readlines()\<close>.\<close>

definition read_lines :: "world \<Rightarrow> path \<Rightarrow> exn + pystr list" where
  "read_lines w file_path =
     (case read_fault w file_path of
        Some e \<Rightarrow> Inl e
      | None \<Rightarrow>
          (case files w file_path of
             None \<Rightarrow> Inl (OSError ''No such file or directory'')
           | Some lines \<Rightarrow> Inr lines))"

text \<open>
  \<open>with open(file_path, 'w', encoding='utf-8') as f: f.writelines(cleaned_lines)\<close>.
  The second component is the exception raised, if any.
\<close>

definition write_lines :: "world \<Rightarrow> path \<Rightarrow> pystr list \<Rightarrow> world \<times> exn option" where
  "write_lines w file_path cleaned_lines =
     (let w1 = w\<lparr>opened_for_write := opened_for_write w @ [file_path]\<rparr>
      in case write_fault w file_path of
           Some (e, residue) \<Rightarrow> (w1\<lparr>files := (files w)(file_path \<mapsto> residue)\<rparr>, Some e)
         | None \<Rightarrow> (w1\<lparr>files := (files w)(file_path \<mapsto> cleaned_lines)\<rparr>, None))"

text \<open>
  The body of the \<open>try\<close> statement of \<open>clean_dart_file\<close>. \<open>Inl\<close> is a raised
  exception, with the object and the world as they are when it is raised; \<open>Inr\<close> is
  the returned count. The \<open>print\<close> of the removal message is inside the body, before
  the two counters are updated.
\<close>

definition dart_try ::
  "path \<Rightarrow> cleaner \<times> world \<Rightarrow> (exn \<times> cleaner \<times> world) + (int \<times> cleaner \<times> world)" where
  "dart_try file_path s =
     (case s of (self, w) \<Rightarrow>
      case read_lines w file_path of
        Inl e \<Rightarrow> Inl (e, self, w)
      | Inr lines \<Rightarrow>
          let cleaned_lines = dart_scan lines;
              n = lines_removed lines cleaned_lines
          in if n > 0 then
               (case write_lines w file_path cleaned_lines of
                  (w1, Some e) \<Rightarrow> Inl (e, self, w1)
                | (w1, None) \<Rightarrow>
                    (case say (Removed n (name file_path)) w1 of
                       Inl e \<Rightarrow> Inl (e, self, w1)
                     | Inr w2 \<Rightarrow>
                         let self1 = self\<lparr>total_lines_removed := total_lines_removed self + n\<rparr>
                         in Inr (n, self1\<lparr>dart_files_processed :=
                                   dart_files_processed self1 + 1\<rparr>, w2)))
             else Inr (n, self\<lparr>dart_files_processed := dart_files_processed self + 1\<rparr>, w))"

text \<open>
  \<open>clean_dart_file\<close>: the \<open>try\<close> body under \<open>except Exception as e\<close>. The
  handler prints and returns 0; an exception raised by its \<open>print\<close> leaves the
  function.
\<close>

definition clean_dart_file ::
  "path \<Rightarrow> cleaner \<times> world \<Rightarrow> (exn \<times> cleaner \<times> world) + (int \<times> cleaner \<times> world)" where
  "clean_dart_file file_path s =
     (case dart_try file_path s of
        Inr r \<Rightarrow> Inr r
      | Inl (e, self, w) \<Rightarrow>
          (case say (ErrorProcessing (name file_path) e) w of
             Inl e' \<Rightarrow> Inl (e', self, w)
           | Inr w' \<Rightarrow> Inr (0, self, w')))"

definition swift_try ::
  "path \<Rightarrow> cleaner \<times> world \<Rightarrow> (exn \<times> cleaner \<times> world) + (int \<times> cleaner \<times> world)" where
  "swift_try file_path s =
     (case s of (self, w) \<Rightarrow>
      case read_lines w file_path of
        Inl e \<Rightarrow> Inl (e, self, w)
      | Inr lines \<Rightarrow>
          let cleaned_lines = swift_scan lines;
              n = lines_removed lines cleaned_lines
          in if n > 0 then
               (case write_lines w file_path cleaned_lines of
                  (w1, Some e) \<Rightarrow> Inl (e, self, w1)
                | (w1, None) \<Rightarrow>
                    (case say (Removed n (name file_path)) w1 of
                       Inl e \<Rightarrow> Inl (e, self, w1)
                     | Inr w2 \<Rightarrow>
                         let self1 = self\<lparr>total_lines_removed := total_lines_removed self + n\<rparr>
                         in Inr (n, self1\<lparr>swift_files_processed :=
                                   swift_files_processed self1 + 1\<rparr>, w2)))
             else Inr (n, self\<lparr>swift_files_processed := swift_files_processed self + 1\<rparr>, w))"

definition clean_swift_file ::
  "path \<Rightarrow> cleaner \<times> world \<Rightarrow> (exn \<times> cleaner \<times> world) + (int \<times> cleaner \<times> world)" where
  "clean_swift_file file_path s =
     (case swift_try file_path s of
        Inr r \<Rightarrow> Inr r
      | Inl (e, self, w) \<Rightarrow>
          (case say (ErrorProcessing (name file_path) e) w of
             Inl e' \<Rightarrow> Inl (e', self, w)
           | Inr w' \<Rightarrow> Inr (0, self, w')))"

text \<open>The object and the world a call ends in, whether it returns or raises.\<close>

definition call_state ::
  "(exn \<times> cleaner \<times> world) + (int \<times> cleaner \<times> world) \<Rightarrow> cleaner \<times> world" where
  "call_state r = (case r of Inl (e, s) \<Rightarrow> s | Inr (n, s) \<Rightarrow> s)"

section \<open>Finding files and the run\<close>

text \<open>\<open>part.startswith('.')\<close>.\<close>

definition starts_with_dot :: "pystr \<Rightarrow> bool" where
  "starts_with_dot part = (case part of [] \<Rightarrow> False | c # _ \<Rightarrow> c = of_char CHR 0x2E)"

text \<open>\<open>file_path.is_file()\<close>.\<close>

definition is_file :: "world \<Rightarrow> path \<Rightarrow> exn + bool" where
  "is_file w file_path =
     (case stat_fault w file_path of
        Some e \<Rightarrow> Inl e
      | None \<Rightarrow> Inr (files w file_path \<noteq> None))"

text \<open>
  The loop of \<open>find_files\<close> over the candidates that \<open>rglob\<close> yields; a
  candidate is the project root joined with a relative path, so its parts are the
  root's parts followed by the relative ones. Nothing catches an exception of
  \<open>is_file\<close>: it leaves \<open>find_files\<close>.
\<close>

fun find_loop :: "world \<Rightarrow> path list \<Rightarrow> exn + path list" where
  "find_loop w [] = Inr []"
| "find_loop w (file_path # others) =
     (if list_ex starts_with_dot file_path then find_loop w others
      else case is_file w file_path of
             Inl e \<Rightarrow> Inl e
           | Inr True \<Rightarrow>
               (case find_loop w others of
                  Inl e \<Rightarrow> Inl e
                | Inr found \<Rightarrow> Inr (file_path # found))
           | Inr False \<Rightarrow> find_loop w others)"

definition find_files :: "cleaner \<Rightarrow> world \<Rightarrow> pystr \<Rightarrow> exn + path list" where
  "find_files self w pattern =
     find_loop w (map (\<lambda>rel. project_root self @ rel) (rglob w pattern))"

text \<open>
  The two \<open>for file_path in ...\<close> loops of \<open>run\<close>; the returned count is
  dropped, and an exception that leaves a cleaning function ends the loop.
\<close>

fun dart_sweep ::
  "path list \<Rightarrow> cleaner \<times> world \<Rightarrow> (exn \<times> cleaner \<times> world) + (cleaner \<times> world)" where
  "dart_sweep [] s = Inr s"
| "dart_sweep (file_path # others) s =
     (case clean_dart_file file_path s of
        Inl x \<Rightarrow> Inl x
      | Inr (n, s') \<Rightarrow> dart_sweep others s')"

fun swift_sweep ::
  "path list \<Rightarrow> cleaner \<times> world \<Rightarrow> (exn \<times> cleaner \<times> world) + (cleaner \<times> world)" where
  "swift_sweep [] s = Inr s"
| "swift_sweep (file_path # others) s =
     (case clean_swift_file file_path s of
        Inl x \<Rightarrow> Inl x
      | Inr (n, s') \<Rightarrow> swift_sweep others s')"

text \<open>A sequence of \<open>print\<close> calls, ended by the first that raises.\<close>

fun says ::
  "message list \<Rightarrow> cleaner \<times> world \<Rightarrow> (exn \<times> cleaner \<times> world) + (cleaner \<times> world)" where
  "says [] s = Inr s"
| "says (m # ms) s =
     (case say m (snd s) of
        Inl e \<Rightarrow> Inl (e, s)
      | Inr w' \<Rightarrow> says ms (fst s, w'))"

definition summary :: "cleaner \<Rightarrow> message list" where
  "summary self =
     [Blank, SummaryHeader, SummaryRule,
      DartProcessed (dart_files_processed self),
      SwiftProcessed (swift_files_processed self),
      TotalRemoved (total_lines_removed self)] @
     (if total_lines_removed self > 0 then [Blank, Completed, Tip] else [Blank, NothingFound])"

text \<open>
  \<open>run\<close>. \<open>Inl\<close> is an exception that leaves \<open>run\<close>, with the state it is
  raised in; \<open>Inr\<close> is the state after the last \<open>print\<close>.
\<close>

definition run :: "cleaner \<times> world \<Rightarrow> (exn \<times> cleaner \<times> world) + (cleaner \<times> world)" where
  "run s0 =
     (case says [Banner, Rule, Scanning (project_root (fst s0)), Blank, ProcessingDart] s0 of
        Inl x \<Rightarrow> Inl x
      | Inr s1 \<Rightarrow>
     (case find_files (fst s1) (snd s1) (ascii ''*.dart'') of
        Inl e \<Rightarrow> Inl (e, s1)
      | Inr dart_files \<Rightarrow>
     (case dart_sweep dart_files s1 of
        Inl x \<Rightarrow> Inl x
      | Inr s2 \<Rightarrow>
     (case says [Blank, ProcessingSwift] s2 of
        Inl x \<Rightarrow> Inl x
      | Inr s3 \<Rightarrow>
     (case find_files (fst s3) (snd s3) (ascii ''*.swift'') of
        Inl e \<Rightarrow> Inl (e, s3)
      | Inr swift_files \<Rightarrow>
     (case swift_sweep swift_files s3 of
        Inl x \<Rightarrow> Inl x
      | Inr s4 \<Rightarrow> says (summary (fst s4)) s4))))))"

definition run_state ::
  "(exn \<times> cleaner \<times> world) + (cleaner \<times> world) \<Rightarrow> cleaner \<times> world" where
  "run_state r = (case r of Inl (e, s) \<Rightarrow> s | Inr s \<Rightarrow> s)"

section \<open>Notions used in the statements\<close>

text \<open>
  A line sequence is clean for a language when no line of it opens a block or matches a
  per-line pattern of that language.
\<close>

definition dart_clean :: "pystr list \<Rightarrow> bool" where
  "dart_clean ls =
     list_all (\<lambda>l. \<not> re_match dart_block_start l \<and> \<not> should_remove dart_patterns l) ls"

definition swift_clean :: "pystr list \<Rightarrow> bool" where
  "swift_clean ls =
     list_all (\<lambda>l. \<not> re_match swift_block_start l \<and> \<not> should_remove swift_patterns l) ls"

text \<open>
  \<open>same_tree w w'\<close>: the two worlds have the same directory tree and the same
  faults. \<open>shrunk w w'\<close>: every file of \<open>w'\<close> holds a subsequence of the lines
  it holds in \<open>w\<close>. \<open>no_faults w\<close>: no read and no write raises.
  \<open>no_print_faults w\<close>: no \<open>print\<close> raises. \<open>no_stat_faults w\<close>: no
  \<open>is_file\<close> raises. \<open>files_clean clean w ps\<close>: the files of \<open>w\<close> at the
  paths \<open>ps\<close> satisfy \<open>clean\<close>. \<open>errors_reported w\<close>: the number of error
  messages on the console.
\<close>

definition same_tree :: "world \<Rightarrow> world \<Rightarrow> bool" where
  "same_tree w w' \<longleftrightarrow>
     rglob w' = rglob w \<and> read_fault w' = read_fault w \<and> write_fault w' = write_fault w \<and>
     stat_fault w' = stat_fault w \<and> print_fault w' = print_fault w \<and>
     dom (files w') = dom (files w)"

definition shrunk :: "world \<Rightarrow> world \<Rightarrow> bool" where
  "shrunk w w' \<longleftrightarrow>
     (\<forall>p ls'. files w' p = Some ls' \<longrightarrow> (\<exists>ls. files w p = Some ls \<and> subseq ls' ls))"

definition no_faults :: "world \<Rightarrow> bool" where
  "no_faults w \<longleftrightarrow> read_fault w = Map.empty \<and> write_fault w = Map.empty"

definition no_print_faults :: "world \<Rightarrow> bool" where
  "no_print_faults w \<longleftrightarrow> (\<forall>c m. print_fault w c m = None)"

definition no_stat_faults :: "world \<Rightarrow> bool" where
  "no_stat_faults w \<longleftrightarrow> stat_fault w = Map.empty"

definition files_clean :: "(pystr list \<Rightarrow> bool) \<Rightarrow> world \<Rightarrow> path list \<Rightarrow> bool" where
  "files_clean clean w ps \<longleftrightarrow> (\<forall>p\<in>set ps. \<forall>ls. files w p = Some ls \<longrightarrow> clean ls)"

definition is_error :: "message \<Rightarrow> bool" where
  "is_error m = (case m of ErrorProcessing n e \<Rightarrow> True | _ \<Rightarrow> False)"

definition errors_reported :: "world \<Rightarrow> int" where
  "errors_reported w = int (length (filter is_error (console w)))"

section \<open>Example worlds\<close>

text \<open>
  A project \<open>proj\<close> with two Dart and two Swift files. \<open>faulty_world\<close>: the
  same project where, for each language, one file cannot be read and one cannot be
  written. \<open>mute_world\<close>: the faulty project on a console that cannot print an
  error message. \<open>denied_world\<close>: the project with a file whose \<open>is_file\<close>
  test raises. \<open>hidden_world\<close>: a project below a hidden directory.
\<close>

definition example_files :: "path \<rightharpoonup> pystr list" where
  "example_files =
     [[ascii ''proj'', ascii ''a.dart''] \<mapsto>
        [ascii ''print(1);'' @ [newline], ascii ''run();'' @ [newline]],
      [ascii ''proj'', ascii ''b.swift''] \<mapsto>
        [ascii ''print(1)'' @ [newline], ascii ''run()'' @ [newline]],
      [ascii ''proj'', ascii ''c.dart''] \<mapsto> [ascii ''return;'' @ [newline]],
      [ascii ''proj'', ascii ''d.swift''] \<mapsto> [ascii ''return'' @ [newline]]]"

definition example_world :: world where
  "example_world =
     \<lparr>files = example_files, read_fault = Map.empty, write_fault = Map.empty,
      stat_fault = Map.empty,
      rglob = (\<lambda>pattern.
        if pattern = ascii ''*.dart'' then [[ascii ''a.dart''], [ascii ''c.dart'']]
        else if pattern = ascii ''*.swift'' then [[ascii ''b.swift''], [ascii ''d.swift'']]
        else []),
      print_fault = (\<lambda>c. Map.empty),
      console = [], opened_for_write = []\<rparr>"

definition faulty_world :: world where
  "faulty_world = example_world
     \<lparr>read_fault := [[ascii ''proj'', ascii ''c.dart''] \<mapsto> OSError ''Permission denied'',
          [ascii ''proj'', ascii ''d.swift''] \<mapsto> UnicodeError ''invalid start byte''],
      write_fault := [[ascii ''proj'', ascii ''a.dart''] \<mapsto> (OSError ''Permission denied'',
            [ascii ''print(1);'' @ [newline], ascii ''run();'' @ [newline]]),
          [ascii ''proj'', ascii ''b.swift''] \<mapsto> (OSError ''No space left on device'', [])]\<rparr>"

definition mute_world :: world where
  "mute_world = faulty_world
     \<lparr>print_fault := (\<lambda>c m. if is_error m then Some (UnicodeError ''surrogates not allowed'')
         else None)\<rparr>"

definition denied_world :: world where
  "denied_world = example_world
     \<lparr>stat_fault := [[ascii ''proj'', ascii ''a.dart''] \<mapsto> OSError ''Permission denied'']\<rparr>"


section \<open>Facts about the patterns\<close>

lemmas pattern_defs = dart_block_start_def dart_patterns_def swift_patterns_def
  swift_block_start_def swift_block_end_def lit_def ws_def ws1_def call_args_def
  should_remove_def ascii_def newline_def is_space_def brace_delta_def open_brace_def
  close_brace_def

lemma re_match_count:
  "re_match r s \<Longrightarrow> c \<noteq> newline \<Longrightarrow> list_all (atom_ok c) r \<Longrightarrow>
   count_list s c = count_list r (Ch c)"
proof (induction r s rule: re_match.induct)
  case (1 s) then show ?case by auto
next
  case (2 c r) then show ?case by simp
next
  case (3 c r x s) then show ?case by auto
next
  case (4 k r) then show ?case by simp
next
  case (5 k r x s)
  then show ?case by (auto simp: atom_ok_def)
next
  case (6 k r) then show ?case by simp
next
  case (7 k r x s) then show ?case by (auto simp: atom_ok_def)
qed

lemma dart_block_start_delta:
  assumes "re_match dart_block_start l" shows "brace_delta l = 1"
proof -
  have a: "count_list l open_brace = count_list dart_block_start (Ch open_brace)"
    by (rule re_match_count[OF assms])
       (simp_all add: dart_block_start_def lit_def ws_def atom_ok_def is_space_def
          open_brace_def newline_def)
  have b: "count_list l close_brace = count_list dart_block_start (Ch close_brace)"
    by (rule re_match_count[OF assms])
       (simp_all add: dart_block_start_def lit_def ws_def atom_ok_def is_space_def
          close_brace_def newline_def)
  show ?thesis unfolding brace_delta_def a b
    by (simp add: dart_block_start_def lit_def ws_def open_brace_def close_brace_def)
qed

lemma re_match_ws_Ch:
  "\<not> is_space a \<Longrightarrow>
   re_match (Star Whitespace # Ch a # r) s = re_match (Ch a # r) (dropWhile is_space s)"
  by (induction s) auto

lemma swift_start_not_end:
  assumes "re_match swift_block_start l" shows "\<not> re_match swift_block_end l"
proof
  assume e: "re_match swift_block_end l"
  define t where "t = dropWhile is_space l"
  have h: "\<not> is_space (of_char CHR 0x23)" by (simp add: is_space_def)
  have a: "re_match (lit ''#if'' @ ws1 # lit ''DEBUG'' @ [ws]) t"
    using assms h unfolding swift_block_start_def t_def ws_def
    by (simp add: lit_def re_match_ws_Ch)
  have b: "re_match (lit ''#endif'' @ [ws]) t"
    using e h unfolding swift_block_end_def t_def ws_def
    by (simp add: lit_def re_match_ws_Ch)
  from a obtain t1 where t1: "t = of_char CHR 0x23 # t1"
    by (cases t) (simp_all add: lit_def)
  from a t1 obtain t2 where t2: "t1 = of_char CHR ''i'' # t2"
    by (cases t1) (simp_all add: lit_def)
  from b t1 t2 show False by (simp add: lit_def)
qed

section \<open>Facts about the two skipping loops\<close>

lemma dart_skip_nonpos: "c \<le> 0 \<Longrightarrow> dart_skip c ls = ls"
  by (cases ls) auto

lemma running_counts_append:
  "running_counts c (xs @ ys) =
   running_counts c xs @ running_counts (c + sum_list (map brace_delta xs)) ys"
  by (induction xs arbitrary: c) (simp_all add: add.assoc)

lemma running_counts_shift:
  "running_counts (c + d) ls = map (\<lambda>v. v + d) (running_counts c ls)"
proof (induction ls arbitrary: c)
  case Nil
  then show ?case by simp
next
  case (Cons l ls)
  show ?case using Cons.IH[of "c + brace_delta l"] by (simp add: ac_simps)
qed

lemma dart_skip_through:
  "0 < c \<Longrightarrow> \<forall>v\<in>set (running_counts c xs). 0 < v \<Longrightarrow>
   dart_skip c (xs @ ys) = dart_skip (c + sum_list (map brace_delta xs)) ys"
  by (induction xs arbitrary: c) (simp_all add: add.assoc)

lemma dart_skip_stops:
  "\<not> (0 < c \<and> (\<forall>v\<in>set (running_counts c xs). 0 < v)) \<Longrightarrow>
   dart_skip c (xs @ ys) = dart_skip c xs @ ys"
proof (induction xs arbitrary: c)
  case Nil
  then show ?case by (simp add: dart_skip_nonpos)
next
  case (Cons x xs)
  show ?case
  proof (cases "0 < c")
    case True
    with Cons.prems have "\<not> (0 < c + brace_delta x \<and>
        (\<forall>v\<in>set (running_counts (c + brace_delta x) xs). 0 < v))"
      by (cases xs) auto
    from Cons.IH[OF this] True show ?thesis by simp
  next
    case False
    then show ?thesis by simp
  qed
qed

lemma swift_skip_append:
  "swift_skip (xs @ ys) =
   (if list_ex (re_match swift_block_end) xs then swift_skip xs @ ys else swift_skip ys)"
  by (induction xs) simp_all

lemma swift_skip_none: "\<not> list_ex (re_match swift_block_end) xs \<Longrightarrow> swift_skip xs = []"
  by (induction xs) simp_all

lemma dart_scan_kept:
  "l \<in> set (dart_scan ls) \<Longrightarrow>
   \<not> re_match dart_block_start l \<and> \<not> should_remove dart_patterns l"
  by (induction ls rule: dart_scan.induct) (auto split: if_splits)

lemma dart_scan_fixed:
  "\<forall>l\<in>set ls. \<not> re_match dart_block_start l \<and> \<not> should_remove dart_patterns l \<Longrightarrow>
   dart_scan ls = ls"
  by (induction ls) simp_all

lemma swift_scan_kept:
  "l \<in> set (swift_scan ls) \<Longrightarrow>
   \<not> re_match swift_block_start l \<and> \<not> should_remove swift_patterns l"
  by (induction ls rule: swift_scan.induct) (auto split: if_splits)

lemma swift_scan_fixed:
  "\<forall>l\<in>set ls. \<not> re_match swift_block_start l \<and> \<not> should_remove swift_patterns l \<Longrightarrow>
   swift_scan ls = ls"
  by (induction ls) simp_all

lemma dart_skip_suffix: "suffix (dart_skip c ls) ls"
  by (induction ls arbitrary: c) (auto intro: suffix_ConsI)

lemma swift_skip_suffix: "suffix (swift_skip ls) ls"
  by (induction ls) (auto intro: suffix_ConsI)

lemma dart_scan_subseq: "subseq (dart_scan ls) ls"
proof (induction ls rule: dart_scan.induct)
  case 1
  then show ?case by simp
next
  case (2 line rest)
  show ?case
  proof (cases "re_match dart_block_start line")
    case True
    have "subseq (dart_skip 1 rest) rest"
      using dart_skip_suffix suffix_imp_subseq by blast
    with 2(1)[OF True] have "subseq (dart_scan (dart_skip 1 rest)) rest"
      using subseq_order.trans by blast
    with True show ?thesis by (simp add: list_emb_Cons)
  next
    case False
    with 2 show ?thesis by auto
  qed
qed

lemma swift_scan_subseq: "subseq (swift_scan ls) ls"
proof (induction ls rule: swift_scan.induct)
  case 1
  then show ?case by simp
next
  case (2 line rest)
  show ?case
  proof (cases "re_match swift_block_start line")
    case True
    have "subseq (swift_skip rest) rest"
      using swift_skip_suffix suffix_imp_subseq by blast
    with 2(1)[OF True] have "subseq (swift_scan (swift_skip rest)) rest"
      using subseq_order.trans by blast
    with True show ?thesis by (simp add: list_emb_Cons)
  next
    case False
    with 2 show ?thesis by auto
  qed
qed

lemma running_counts_last:
  "last (c # running_counts c ls) = c + sum_list (map brace_delta ls)"
  by (induction ls arbitrary: c) (simp_all add: add.assoc)

lemma dart_skip_body:
  assumes ne: "body \<noteq> []"
    and pos: "\<forall>v\<in>set (butlast (running_counts 1 body)). 0 < v"
    and fin: "last (running_counts 1 body) = 0"
    and c: "0 \<le> c"
  shows "dart_skip (c + 1) (body @ rest) = dart_skip c rest"
proof -
  define b z where "b = butlast body" and "z = last body"
  have body: "body = b @ [z]" using ne by (simp add: b_def z_def)
  have rc: "running_counts 1 body =
      running_counts 1 b @ [1 + sum_list (map brace_delta b) + brace_delta z]"
    by (simp add: body running_counts_append)
  from pos rc have pos1: "\<forall>v\<in>set (running_counts 1 b). 0 < v" by simp
  from fin rc have z: "1 + sum_list (map brace_delta b) + brace_delta z = 0" by simp
  have "last (1 # running_counts 1 b) \<in> set (1 # running_counts 1 b)"
    by (rule last_in_set) simp
  with pos1 have "0 < last (1 # running_counts 1 b)" by auto
  then have mid: "0 < 1 + sum_list (map brace_delta b)"
    by (simp only: running_counts_last)
  have "running_counts (1 + c) b = map (\<lambda>v. v + c) (running_counts 1 b)"
    by (rule running_counts_shift)
  with pos1 c have posc: "\<forall>v\<in>set (running_counts (c + 1) b). 0 < v"
    by (auto simp: add.commute)
  have "dart_skip (c + 1) (body @ rest) = dart_skip (c + 1) (b @ z # rest)"
    by (simp add: body)
  also have "\<dots> = dart_skip (c + 1 + sum_list (map brace_delta b)) (z # rest)"
    using c posc by (intro dart_skip_through) auto
  also have "\<dots> = dart_skip (c + 1 + sum_list (map brace_delta b) + brace_delta z) rest"
    using c mid by simp
  also have "c + 1 + sum_list (map brace_delta b) + brace_delta z = c"
    using z by simp
  finally show ?thesis .
qed

lemma dart_skip_block:
  assumes "re_match dart_block_start opener" "body \<noteq> []"
    "\<forall>v\<in>set (butlast (running_counts 1 body)). 0 < v"
    "last (running_counts 1 body) = 0" "0 < c"
  shows "dart_skip c (opener # body @ rest) = dart_skip c rest"
  using assms dart_skip_body[of body c rest]
  by (simp add: dart_block_start_delta)

lemma dart_unterminated:
  assumes op: "re_match dart_block_start opener"
    and pos: "\<forall>v\<in>set (running_counts 1 ls). 0 < v"
  shows "dart_scan (pre @ opener # ls) = dart_scan pre"
proof (induction pre rule: dart_scan.induct)
  case 1
  have "dart_skip 1 (ls @ []) = dart_skip (1 + sum_list (map brace_delta ls)) []"
    using pos by (intro dart_skip_through) auto
  then show ?case using op by simp
next
  case (2 line pre)
  let ?B = "opener # ls"
  show ?case
  proof (cases "re_match dart_block_start line")
    case True
    show ?thesis
    proof (cases "\<forall>v\<in>set (running_counts 1 pre). 0 < v")
      case through: True
      let ?c = "1 + sum_list (map brace_delta pre)"
      have "last (1 # running_counts 1 pre) \<in> set (1 # running_counts 1 pre)"
        by (rule last_in_set) simp
      with through have "0 < last (1 # running_counts 1 pre)" by auto
      then have c: "0 < ?c" by (simp only: running_counts_last)
      have "running_counts (1 + ?c) ls = map (\<lambda>v. v + ?c) (running_counts 1 ls)"
        by (rule running_counts_shift)
      with pos c have posc: "\<forall>v\<in>set (running_counts (?c + 1) ls). 0 < v"
        by (auto simp: add.commute)
      have "dart_skip 1 (pre @ ?B) = dart_skip ?c ?B"
        using through by (intro dart_skip_through) auto
      also have "\<dots> = dart_skip (?c + 1) (ls @ [])"
        using c by (simp add: dart_block_start_delta[OF op])
      also have "\<dots> = dart_skip (?c + 1 + sum_list (map brace_delta ls)) []"
        using c posc by (intro dart_skip_through) auto
      finally have a: "dart_skip 1 (pre @ ?B) = []" by simp
      have "dart_skip 1 (pre @ []) = dart_skip ?c []"
        using through by (intro dart_skip_through) auto
      then have b: "dart_skip 1 pre = []" by simp
      from a b True show ?thesis by simp
    next
      case False
      then have a: "dart_skip 1 (pre @ ?B) = dart_skip 1 pre @ ?B"
        by (simp add: dart_skip_stops)
      from 2(1)[OF True] a True show ?thesis by simp
    qed
  next
    case False
    with 2 show ?thesis by simp
  qed
qed

lemma swift_unterminated:
  assumes st: "re_match swift_block_start opener"
    and none: "\<forall>l\<in>set ls. \<not> re_match swift_block_end l"
  shows "swift_scan (pre @ opener # ls) = swift_scan pre"
proof (induction pre rule: swift_scan.induct)
  case 1
  have "swift_skip ls = []" using none by (simp add: swift_skip_none list_ex_iff)
  then show ?case using st by simp
next
  case (2 line pre)
  show ?case
  proof (cases "re_match swift_block_start line")
    case True
    show ?thesis
    proof (cases "list_ex (re_match swift_block_end) pre")
      case found: True
      then have "swift_skip (pre @ opener # ls) = swift_skip pre @ opener # ls"
        by (simp add: swift_skip_append)
      with 2(1)[OF True] True show ?thesis by simp
    next
      case False
      have "swift_skip ls = []" using none by (simp add: swift_skip_none list_ex_iff)
      then have "swift_skip (pre @ opener # ls) = []"
        using False swift_start_not_end[OF st] by (simp add: swift_skip_append)
      with False True show ?thesis by (simp add: swift_skip_none)
    qed
  next
    case False
    with 2 show ?thesis by simp
  qed
qed

section \<open>Facts about the cleaning functions, the sweeps and the run\<close>

lemma dart_clean_fixed: "dart_clean ls \<Longrightarrow> dart_scan ls = ls"
  by (rule dart_scan_fixed) (simp add: dart_clean_def list_all_iff)

lemma swift_clean_fixed: "swift_clean ls \<Longrightarrow> swift_scan ls = ls"
  by (rule swift_scan_fixed) (simp add: swift_clean_def list_all_iff)

lemma dart_clean_scan: "dart_clean (dart_scan ls)"
  by (simp add: dart_clean_def list_all_iff dart_scan_kept)

lemma swift_clean_scan: "swift_clean (swift_scan ls)"
  by (simp add: swift_clean_def list_all_iff swift_scan_kept)

lemma dart_clean_subseq: "subseq xs ys \<Longrightarrow> dart_clean ys \<Longrightarrow> dart_clean xs"
  unfolding dart_clean_def list_all_iff by (blast dest: list_emb_set)

lemma swift_clean_subseq: "subseq xs ys \<Longrightarrow> swift_clean ys \<Longrightarrow> swift_clean xs"
  unfolding swift_clean_def list_all_iff by (blast dest: list_emb_set)

lemma dart_none_removed: "\<not> 0 < lines_removed ls (dart_scan ls) \<Longrightarrow> dart_scan ls = ls"
proof -
  assume "\<not> 0 < lines_removed ls (dart_scan ls)"
  with list_emb_length[OF dart_scan_subseq[of ls]]
  have "length (dart_scan ls) = length ls" by (simp add: lines_removed_def)
  with dart_scan_subseq[of ls] show ?thesis by (rule subseq_same_length)
qed

lemma swift_none_removed: "\<not> 0 < lines_removed ls (swift_scan ls) \<Longrightarrow> swift_scan ls = ls"
proof -
  assume "\<not> 0 < lines_removed ls (swift_scan ls)"
  with list_emb_length[OF swift_scan_subseq[of ls]]
  have "length (swift_scan ls) = length ls" by (simp add: lines_removed_def)
  with swift_scan_subseq[of ls] show ?thesis by (rule subseq_same_length)
qed

lemma read_lines_Inr: "read_lines w p = Inr ls \<Longrightarrow> files w p = Some ls"
  by (auto simp: read_lines_def split: option.splits)

lemma same_tree_refl: "same_tree w w"
  by (simp add: same_tree_def)

lemma same_tree_trans: "same_tree a b \<Longrightarrow> same_tree b c \<Longrightarrow> same_tree a c"
  by (simp add: same_tree_def)

lemma shrunk_refl: "shrunk w w"
  by (simp add: shrunk_def)

lemma shrunk_trans: "shrunk a b \<Longrightarrow> shrunk b c \<Longrightarrow> shrunk a c"
  unfolding shrunk_def by (meson subseq_order.trans)

lemma say_Inr: "say m w = Inr w' \<Longrightarrow> w' = w\<lparr>console := console w @ [m]\<rparr>"
  by (auto simp: say_def split: option.splits)

text \<open>The outcomes of the \<open>try\<close> body.\<close>

lemma dart_try_cases:
  obtains (read_fails) e where "read_lines w p = Inl e" "dart_try p (self, w) = Inl (e, self, w)"
  | (unchanged) ls where "read_lines w p = Inr ls" "\<not> 0 < lines_removed ls (dart_scan ls)"
      "dart_try p (self, w) = Inr (lines_removed ls (dart_scan ls),
         self\<lparr>dart_files_processed := dart_files_processed self + 1\<rparr>, w)"
  | (write_fails) ls e residue where "read_lines w p = Inr ls"
      "0 < lines_removed ls (dart_scan ls)" "write_fault w p = Some (e, residue)"
      "dart_try p (self, w) = Inl (e, self,
         w\<lparr>opened_for_write := opened_for_write w @ [p], files := (files w)(p \<mapsto> residue)\<rparr>)"
  | (print_fails) ls e where "read_lines w p = Inr ls"
      "0 < lines_removed ls (dart_scan ls)" "write_fault w p = None"
      "print_fault w (console w) (Removed (lines_removed ls (dart_scan ls)) (name p)) = Some e"
      "dart_try p (self, w) = Inl (e, self,
         w\<lparr>opened_for_write := opened_for_write w @ [p],
           files := (files w)(p \<mapsto> dart_scan ls)\<rparr>)"
  | (written) ls where "read_lines w p = Inr ls"
      "0 < lines_removed ls (dart_scan ls)" "write_fault w p = None"
      "print_fault w (console w) (Removed (lines_removed ls (dart_scan ls)) (name p)) = None"
      "dart_try p (self, w) = Inr (lines_removed ls (dart_scan ls),
         self\<lparr>total_lines_removed := total_lines_removed self + lines_removed ls (dart_scan ls),
           dart_files_processed := dart_files_processed self + 1\<rparr>,
         w\<lparr>opened_for_write := opened_for_write w @ [p],
           files := (files w)(p \<mapsto> dart_scan ls),
           console := console w @ [Removed (lines_removed ls (dart_scan ls)) (name p)]\<rparr>)"
proof (cases "read_lines w p")
  case (Inl e)
  then show ?thesis by (intro read_fails[of e]) (simp_all add: dart_try_def)
next
  case (Inr ls)
  show ?thesis
  proof (cases "0 < lines_removed ls (dart_scan ls)")
    case False
    with Inr show ?thesis by (intro unchanged[of ls]) (simp_all add: dart_try_def Let_def)
  next
    case True
    show ?thesis
    proof (cases "write_fault w p")
      case (Some a)
      obtain e residue where a: "a = (e, residue)" by (cases a)
      with Inr True Some show ?thesis
        by (intro write_fails[of ls e residue]) (simp_all add: dart_try_def Let_def write_lines_def)
    next
      case None
      show ?thesis
      proof (cases "print_fault w (console w) (Removed (lines_removed ls (dart_scan ls)) (name p))")
        case (Some e)
        with Inr True None show ?thesis
          by (intro print_fails[of ls e])
             (simp_all add: dart_try_def Let_def write_lines_def say_def)
      next
        case pn: None
        with Inr True None show ?thesis
          by (intro written[of ls])
             (simp_all add: dart_try_def Let_def write_lines_def say_def)
      qed
    qed
  qed
qed

lemma swift_try_cases:
  obtains (read_fails) e where "read_lines w p = Inl e" "swift_try p (self, w) = Inl (e, self, w)"
  | (unchanged) ls where "read_lines w p = Inr ls" "\<not> 0 < lines_removed ls (swift_scan ls)"
      "swift_try p (self, w) = Inr (lines_removed ls (swift_scan ls),
         self\<lparr>swift_files_processed := swift_files_processed self + 1\<rparr>, w)"
  | (write_fails) ls e residue where "read_lines w p = Inr ls"
      "0 < lines_removed ls (swift_scan ls)" "write_fault w p = Some (e, residue)"
      "swift_try p (self, w) = Inl (e, self,
         w\<lparr>opened_for_write := opened_for_write w @ [p], files := (files w)(p \<mapsto> residue)\<rparr>)"
  | (print_fails) ls e where "read_lines w p = Inr ls"
      "0 < lines_removed ls (swift_scan ls)" "write_fault w p = None"
      "print_fault w (console w) (Removed (lines_removed ls (swift_scan ls)) (name p)) = Some e"
      "swift_try p (self, w) = Inl (e, self,
         w\<lparr>opened_for_write := opened_for_write w @ [p],
           files := (files w)(p \<mapsto> swift_scan ls)\<rparr>)"
  | (written) ls where "read_lines w p = Inr ls"
      "0 < lines_removed ls (swift_scan ls)" "write_fault w p = None"
      "print_fault w (console w) (Removed (lines_removed ls (swift_scan ls)) (name p)) = None"
      "swift_try p (self, w) = Inr (lines_removed ls (swift_scan ls),
         self\<lparr>total_lines_removed := total_lines_removed self + lines_removed ls (swift_scan ls),
           swift_files_processed := swift_files_processed self + 1\<rparr>,
         w\<lparr>opened_for_write := opened_for_write w @ [p],
           files := (files w)(p \<mapsto> swift_scan ls),
           console := console w @ [Removed (lines_removed ls (swift_scan ls)) (name p)]\<rparr>)"
proof (cases "read_lines w p")
  case (Inl e)
  then show ?thesis by (intro read_fails[of e]) (simp_all add: swift_try_def)
next
  case (Inr ls)
  show ?thesis
  proof (cases "0 < lines_removed ls (swift_scan ls)")
    case False
    with Inr show ?thesis by (intro unchanged[of ls]) (simp_all add: swift_try_def Let_def)
  next
    case True
    show ?thesis
    proof (cases "write_fault w p")
      case (Some a)
      obtain e residue where a: "a = (e, residue)" by (cases a)
      with Inr True Some show ?thesis
        by (intro write_fails[of ls e residue]) (simp_all add: swift_try_def Let_def write_lines_def)
    next
      case None
      show ?thesis
      proof (cases "print_fault w (console w) (Removed (lines_removed ls (swift_scan ls)) (name p))")
        case (Some e)
        with Inr True None show ?thesis
          by (intro print_fails[of ls e])
             (simp_all add: swift_try_def Let_def write_lines_def say_def)
      next
        case pn: None
        with Inr True None show ?thesis
          by (intro written[of ls])
             (simp_all add: swift_try_def Let_def write_lines_def say_def)
      qed
    qed
  qed
qed

lemma clean_dart_of_try_Inr: "dart_try p s = Inr r \<Longrightarrow> clean_dart_file p s = Inr r"
  by (simp add: clean_dart_file_def)

lemma clean_swift_of_try_Inr: "swift_try p s = Inr r \<Longrightarrow> clean_swift_file p s = Inr r"
  by (simp add: clean_swift_file_def)

lemma clean_dart_of_try_Inl:
  "dart_try p s = Inl (e, self', w') \<Longrightarrow>
   clean_dart_file p s =
     (case print_fault w' (console w') (ErrorProcessing (name p) e) of
        Some e' \<Rightarrow> Inl (e', self', w')
      | None \<Rightarrow> Inr (0, self', w'\<lparr>console := console w' @ [ErrorProcessing (name p) e]\<rparr>))"
  by (simp add: clean_dart_file_def say_def split: option.splits)

lemma clean_swift_of_try_Inl:
  "swift_try p s = Inl (e, self', w') \<Longrightarrow>
   clean_swift_file p s =
     (case print_fault w' (console w') (ErrorProcessing (name p) e) of
        Some e' \<Rightarrow> Inl (e', self', w')
      | None \<Rightarrow> Inr (0, self', w'\<lparr>console := console w' @ [ErrorProcessing (name p) e]\<rparr>))"
  by (simp add: clean_swift_file_def say_def split: option.splits)

text \<open>What a call of a cleaning function leaves as it is, however it ends.\<close>

lemma clean_dart_frame:
  assumes "call_state (clean_dart_file p (self, w)) = (self', w')"
  shows "project_root self' = project_root self \<and> same_tree w w' \<and>
    opened_for_write w' = opened_for_write w @
      (case read_lines w p of Inl e \<Rightarrow> []
       | Inr lines \<Rightarrow> if 0 < lines_removed lines (dart_scan lines) then [p] else [])"
proof (cases rule: dart_try_cases[of w p self])
  case (read_fails e)
  with assms show ?thesis
    by (auto simp: clean_dart_of_try_Inl call_state_def same_tree_def split: option.splits)
next
  case (unchanged ls)
  with assms show ?thesis
    by (auto simp: clean_dart_of_try_Inr call_state_def same_tree_def)
next
  case (write_fails ls e residue)
  from write_fails(1) have "p \<in> dom (files w)" by (auto dest: read_lines_Inr)
  then have "insert p (dom (files w)) = dom (files w)" by auto
  with write_fails assms show ?thesis
    by (auto simp: clean_dart_of_try_Inl call_state_def same_tree_def split: option.splits)
next
  case (print_fails ls e)
  from print_fails(1) have "p \<in> dom (files w)" by (auto dest: read_lines_Inr)
  then have "insert p (dom (files w)) = dom (files w)" by auto
  with print_fails assms show ?thesis
    by (auto simp: clean_dart_of_try_Inl call_state_def same_tree_def split: option.splits)
next
  case (written ls)
  from written(1) have "p \<in> dom (files w)" by (auto dest: read_lines_Inr)
  then have "insert p (dom (files w)) = dom (files w)" by auto
  with written assms show ?thesis
    by (auto simp: clean_dart_of_try_Inr call_state_def same_tree_def)
qed

lemma clean_swift_frame:
  assumes "call_state (clean_swift_file p (self, w)) = (self', w')"
  shows "project_root self' = project_root self \<and> same_tree w w' \<and>
    opened_for_write w' = opened_for_write w @
      (case read_lines w p of Inl e \<Rightarrow> []
       | Inr lines \<Rightarrow> if 0 < lines_removed lines (swift_scan lines) then [p] else [])"
proof (cases rule: swift_try_cases[of w p self])
  case (read_fails e)
  with assms show ?thesis
    by (auto simp: clean_swift_of_try_Inl call_state_def same_tree_def split: option.splits)
next
  case (unchanged ls)
  with assms show ?thesis
    by (auto simp: clean_swift_of_try_Inr call_state_def same_tree_def)
next
  case (write_fails ls e residue)
  from write_fails(1) have "p \<in> dom (files w)" by (auto dest: read_lines_Inr)
  then have "insert p (dom (files w)) = dom (files w)" by auto
  with write_fails assms show ?thesis
    by (auto simp: clean_swift_of_try_Inl call_state_def same_tree_def split: option.splits)
next
  case (print_fails ls e)
  from print_fails(1) have "p \<in> dom (files w)" by (auto dest: read_lines_Inr)
  then have "insert p (dom (files w)) = dom (files w)" by auto
  with print_fails assms show ?thesis
    by (auto simp: clean_swift_of_try_Inl call_state_def same_tree_def split: option.splits)
next
  case (written ls)
  from written(1) have "p \<in> dom (files w)" by (auto dest: read_lines_Inr)
  then have "insert p (dom (files w)) = dom (files w)" by auto
  with written assms show ?thesis
    by (auto simp: clean_swift_of_try_Inr call_state_def same_tree_def)
qed

lemma dart_sweep_frame:
  "run_state (dart_sweep fs (self, w)) = (self', w') \<Longrightarrow>
   project_root self' = project_root self \<and> same_tree w w' \<and>
   (\<exists>new. opened_for_write w' = opened_for_write w @ new \<and> subseq new fs)"
proof (induction fs arbitrary: self w)
  case Nil
  then show ?case by (simp add: same_tree_refl run_state_def)
next
  case (Cons p fs)
  obtain self1 w1 where c: "call_state (clean_dart_file p (self, w)) = (self1, w1)"
    by (cases "call_state (clean_dart_file p (self, w))") auto
  from clean_dart_frame[OF c]
  have r: "project_root self1 = project_root self" and t: "same_tree w w1"
    and o: "opened_for_write w1 = opened_for_write w \<or>
            opened_for_write w1 = opened_for_write w @ [p]"
    by (auto split: sum.splits if_splits)
  show ?case
  proof (cases "clean_dart_file p (self, w)")
    case (Inl x)
    with c Cons.prems have "(self', w') = (self1, w1)"
      by (cases x) (simp add: run_state_def call_state_def)
    with r t o show ?thesis by auto
  next
    case (Inr y)
    with c obtain n where y: "y = (n, self1, w1)"
      by (cases y) (simp add: call_state_def)
    with Inr Cons.prems have "run_state (dart_sweep fs (self1, w1)) = (self', w')" by simp
    from Cons.IH[OF this] obtain new where
      r': "project_root self' = project_root self1" and t': "same_tree w1 w'"
      and o': "opened_for_write w' = opened_for_write w1 @ new" and s: "subseq new fs"
      by blast
    from o show ?thesis
    proof
      assume "opened_for_write w1 = opened_for_write w"
      with o' s r r' same_tree_trans[OF t t'] show ?thesis by auto
    next
      assume "opened_for_write w1 = opened_for_write w @ [p]"
      with o' have "opened_for_write w' = opened_for_write w @ (p # new)" by simp
      moreover from s have "subseq (p # new) (p # fs)" by simp
      ultimately show ?thesis using r r' same_tree_trans[OF t t'] by auto
    qed
  qed
qed

lemma swift_sweep_frame:
  "run_state (swift_sweep fs (self, w)) = (self', w') \<Longrightarrow>
   project_root self' = project_root self \<and> same_tree w w' \<and>
   (\<exists>new. opened_for_write w' = opened_for_write w @ new \<and> subseq new fs)"
proof (induction fs arbitrary: self w)
  case Nil
  then show ?case by (simp add: same_tree_refl run_state_def)
next
  case (Cons p fs)
  obtain self1 w1 where c: "call_state (clean_swift_file p (self, w)) = (self1, w1)"
    by (cases "call_state (clean_swift_file p (self, w))") auto
  from clean_swift_frame[OF c]
  have r: "project_root self1 = project_root self" and t: "same_tree w w1"
    and o: "opened_for_write w1 = opened_for_write w \<or>
            opened_for_write w1 = opened_for_write w @ [p]"
    by (auto split: sum.splits if_splits)
  show ?case
  proof (cases "clean_swift_file p (self, w)")
    case (Inl x)
    with c Cons.prems have "(self', w') = (self1, w1)"
      by (cases x) (simp add: run_state_def call_state_def)
    with r t o show ?thesis by auto
  next
    case (Inr y)
    with c obtain n where y: "y = (n, self1, w1)"
      by (cases y) (simp add: call_state_def)
    with Inr Cons.prems have "run_state (swift_sweep fs (self1, w1)) = (self', w')" by simp
    from Cons.IH[OF this] obtain new where
      r': "project_root self' = project_root self1" and t': "same_tree w1 w'"
      and o': "opened_for_write w' = opened_for_write w1 @ new" and s: "subseq new fs"
      by blast
    from o show ?thesis
    proof
      assume "opened_for_write w1 = opened_for_write w"
      with o' s r r' same_tree_trans[OF t t'] show ?thesis by auto
    next
      assume "opened_for_write w1 = opened_for_write w @ [p]"
      with o' have "opened_for_write w' = opened_for_write w @ (p # new)" by simp
      moreover from s have "subseq (p # new) (p # fs)" by simp
      ultimately show ?thesis using r r' same_tree_trans[OF t t'] by auto
    qed
  qed
qed

lemma says_frame:
  "run_state (says ms (self, w)) = (self', w') \<Longrightarrow>
   self' = self \<and> same_tree w w' \<and> files w' = files w \<and>
   opened_for_write w' = opened_for_write w"
proof (induction ms arbitrary: w)
  case Nil
  then show ?case by (simp add: run_state_def same_tree_refl)
next
  case (Cons m ms)
  show ?case
  proof (cases "say m w")
    case (Inl e)
    with Cons.prems show ?thesis by (simp add: run_state_def same_tree_refl)
  next
    case (Inr w1)
    then have w1: "w1 = w\<lparr>console := console w @ [m]\<rparr>" by (rule say_Inr)
    from Inr Cons.prems have "run_state (says ms (self, w1)) = (self', w')" by simp
    from Cons.IH[OF this] show ?thesis by (simp add: w1 same_tree_def)
  qed
qed

lemma is_file_same_tree: "same_tree w w' \<Longrightarrow> is_file w' p = is_file w p"
proof -
  assume t: "same_tree w w'"
  then have "(files w' p = None) = (files w p = None)"
    unfolding same_tree_def by (metis domIff)
  with t show ?thesis by (auto simp: is_file_def same_tree_def split: option.splits)
qed

lemma find_loop_same_tree:
  assumes "same_tree w w'"
  shows "find_loop w' cands = find_loop w cands"
proof -
  have "is_file w' p = is_file w p" for p
    by (rule is_file_same_tree[OF assms])
  then show ?thesis by (induction cands) (auto split: sum.splits bool.splits)
qed

lemma find_files_same_tree:
  "same_tree w w' \<Longrightarrow> project_root self' = project_root self \<Longrightarrow>
   find_files self' w' pattern = find_files self w pattern"
  by (simp add: find_files_def find_loop_same_tree) (simp add: same_tree_def)

lemma find_loop_subseq: "find_loop w cands = Inr found \<Longrightarrow> subseq found cands"
proof (induction cands arbitrary: found)
  case Nil
  then show ?case by simp
next
  case (Cons c cands)
  then show ?case
    by (auto split: if_splits sum.splits bool.splits)
qed


lemma find_loop_ok: "no_stat_faults w \<Longrightarrow> \<exists>found. find_loop w cands = Inr found"
  by (induction cands) (auto simp: is_file_def no_stat_faults_def split: bool.splits)

lemma subseq_distinct: "subseq xs ys \<Longrightarrow> distinct ys \<Longrightarrow> distinct xs"
proof (induction rule: list_emb.induct)
  case (list_emb_Nil ys)
  then show ?case by simp
next
  case (list_emb_Cons xs ys y)
  then show ?case by simp
next
  case (list_emb_Cons2 x y xs ys)
  then show ?case by (auto dest: list_emb_set)
qed

lemma says_Inr:
  "says ms (self, w) = Inr s \<Longrightarrow> s = (self, w\<lparr>console := console w @ ms\<rparr>)"
proof (induction ms arbitrary: w)
  case Nil
  then show ?case by simp
next
  case (Cons m ms)
  then obtain w1 where a: "say m w = Inr w1" and b: "says ms (self, w1) = Inr s"
    by (auto split: sum.splits)
  from say_Inr[OF a] Cons.IH[OF b] show ?case by simp
qed

lemma says_ok:
  "no_print_faults w \<Longrightarrow> says ms (self, w) = Inr (self, w\<lparr>console := console w @ ms\<rparr>)"
proof (induction ms arbitrary: w)
  case Nil
  then show ?case by simp
next
  case (Cons m ms)
  have n: "no_print_faults (w\<lparr>console := console w @ [m]\<rparr>)"
    using Cons.prems by (simp add: no_print_faults_def)
  have "say m w = Inr (w\<lparr>console := console w @ [m]\<rparr>)"
    using Cons.prems by (simp add: say_def no_print_faults_def)
  with Cons.IH[OF n] show ?case by simp
qed

lemma same_tree_console: "same_tree w (w\<lparr>console := c\<rparr>)"
  by (simp add: same_tree_def)

text \<open>The stages of a run that returns.\<close>

lemma run_Inr:
  assumes "run (self, w) = Inr s"
  obtains self2 w2 self4 w4 dart_files swift_files where
    "find_files self w (ascii ''*.dart'') = Inr dart_files"
    "dart_sweep dart_files
       (self, w\<lparr>console := console w @ [Banner, Rule, Scanning (project_root self), Blank,
          ProcessingDart]\<rparr>) = Inr (self2, w2)"
    "find_files self w (ascii ''*.swift'') = Inr swift_files"
    "swift_sweep swift_files
       (self2, w2\<lparr>console := console w2 @ [Blank, ProcessingSwift]\<rparr>) = Inr (self4, w4)"
    "s = (self4, w4\<lparr>console := console w4 @ summary self4\<rparr>)"
proof -
  let ?wa = "w\<lparr>console := console w @ [Banner, Rule, Scanning (project_root self), Blank,
          ProcessingDart]\<rparr>"
  from assms obtain s1 where
    a1: "says [Banner, Rule, Scanning (project_root self), Blank, ProcessingDart] (self, w) = Inr s1"
    by (auto simp: run_def split: sum.splits)
  from says_Inr[OF a1] have s1: "s1 = (self, ?wa)" .
  from assms a1 obtain dart_files where
    a2: "find_files self ?wa (ascii ''*.dart'') = Inr dart_files"
    by (auto simp: run_def s1 split: sum.splits)
  from assms a1 a2 obtain s2 where a3: "dart_sweep dart_files (self, ?wa) = Inr s2"
    by (auto simp: run_def s1 split: sum.splits)
  obtain self2 w2 where s2: "s2 = (self2, w2)" by (cases s2)
  let ?wb = "w2\<lparr>console := console w2 @ [Blank, ProcessingSwift]\<rparr>"
  from assms a1 a2 a3 obtain s3 where a4: "says [Blank, ProcessingSwift] (self2, w2) = Inr s3"
    by (auto simp: run_def s1 s2 split: sum.splits)
  from says_Inr[OF a4] have s3: "s3 = (self2, ?wb)" .
  from assms a1 a2 a3 a4 obtain swift_files where
    a5: "find_files self2 ?wb (ascii ''*.swift'') = Inr swift_files"
    by (auto simp: run_def s1 s2 s3 split: sum.splits)
  from assms a1 a2 a3 a4 a5 obtain s4 where a6: "swift_sweep swift_files (self2, ?wb) = Inr s4"
    by (auto simp: run_def s1 s2 s3 split: sum.splits)
  obtain self4 w4 where s4: "s4 = (self4, w4)" by (cases s4)
  from assms a1 a2 a3 a4 a5 a6 have a7: "says (summary self4) (self4, w4) = Inr s"
    by (auto simp: run_def s1 s2 s3 s4 split: sum.splits)
  have "find_files self ?wa (ascii ''*.dart'') = find_files self w (ascii ''*.dart'')"
    by (rule find_files_same_tree[OF same_tree_console]) simp
  with a2 have d: "find_files self w (ascii ''*.dart'') = Inr dart_files" by simp
  from a3 have "run_state (dart_sweep dart_files (self, ?wa)) = (self2, w2)"
    by (simp add: s2 run_state_def)
  from dart_sweep_frame[OF this]
  have r: "project_root self2 = project_root self" and t: "same_tree ?wa w2" by simp_all
  have "same_tree w ?wb"
    by (rule same_tree_trans[OF same_tree_console same_tree_trans[OF t same_tree_console]])
  from find_files_same_tree[OF this r] a5
  have sw: "find_files self w (ascii ''*.swift'') = Inr swift_files" by simp
  show ?thesis
    by (rule that[OF d a3[unfolded s2] sw a6[unfolded s4] says_Inr[OF a7]])
qed

lemma run_steps:
  assumes d: "find_files self w (ascii ''*.dart'') = Inr dart_files"
    and a: "dart_sweep dart_files
      (self, w\<lparr>console := console w @ [Banner, Rule, Scanning (project_root self), Blank,
         ProcessingDart]\<rparr>) = Inr (self2, w2)"
    and s: "find_files self w (ascii ''*.swift'') = Inr swift_files"
    and b: "swift_sweep swift_files
      (self2, w2\<lparr>console := console w2 @ [Blank, ProcessingSwift]\<rparr>) = Inr (self4, w4)"
    and np: "no_print_faults w"
  shows "run (self, w) = Inr (self4, w4\<lparr>console := console w4 @ summary self4\<rparr>)"
proof -
  let ?wa = "w\<lparr>console := console w @ [Banner, Rule, Scanning (project_root self), Blank,
         ProcessingDart]\<rparr>"
  let ?wb = "w2\<lparr>console := console w2 @ [Blank, ProcessingSwift]\<rparr>"
  have a1: "says [Banner, Rule, Scanning (project_root self), Blank, ProcessingDart] (self, w) =
      Inr (self, ?wa)"
    by (rule says_ok[OF np])
  have "find_files self ?wa (ascii ''*.dart'') = find_files self w (ascii ''*.dart'')"
    by (rule find_files_same_tree[OF same_tree_console]) simp
  with d have d': "find_files self ?wa (ascii ''*.dart'') = Inr dart_files" by simp
  from a have "run_state (dart_sweep dart_files (self, ?wa)) = (self2, w2)"
    by (simp add: run_state_def)
  from dart_sweep_frame[OF this]
  have r: "project_root self2 = project_root self" and t: "same_tree ?wa w2" by simp_all
  have np2: "no_print_faults w2"
    using np t by (simp add: no_print_faults_def same_tree_def)
  have a4: "says [Blank, ProcessingSwift] (self2, w2) = Inr (self2, ?wb)"
    by (rule says_ok[OF np2])
  have "same_tree w ?wb"
    by (rule same_tree_trans[OF same_tree_console same_tree_trans[OF t same_tree_console]])
  from find_files_same_tree[OF this r] s
  have s': "find_files self2 ?wb (ascii ''*.swift'') = Inr swift_files" by simp
  from b have "run_state (swift_sweep swift_files (self2, ?wb)) = (self4, w4)"
    by (simp add: run_state_def)
  from swift_sweep_frame[OF this] have "same_tree ?wb w4" by simp
  then have np4: "no_print_faults w4"
    using np2 by (simp add: no_print_faults_def same_tree_def)
  have a7: "says (summary self4) (self4, w4) =
      Inr (self4, w4\<lparr>console := console w4 @ summary self4\<rparr>)"
    by (rule says_ok[OF np4])
  show ?thesis
    by (simp only: run_def fst_conv snd_conv a1 d' a a4 s' b a7 sum.case)
qed

lemma find_files_subseq:
  "find_files self w pattern = Inr found \<Longrightarrow>
   subseq found (map (\<lambda>rel. project_root self @ rel) (rglob w pattern))"
  unfolding find_files_def by (rule find_loop_subseq)

lemma run_opened_parts:
  "\<exists>new1 new2.
     opened_for_write (snd (run_state (run (self, w)))) = opened_for_write w @ new1 @ new2 \<and>
     subseq new1 (map (\<lambda>rel. project_root self @ rel) (rglob w (ascii ''*.dart''))) \<and>
     subseq new2 (map (\<lambda>rel. project_root self @ rel) (rglob w (ascii ''*.swift'')))"
proof -
  let ?m1 = "[Banner, Rule, Scanning (project_root self), Blank, ProcessingDart]"
  let ?wa = "w\<lparr>console := console w @ ?m1\<rparr>"
  let ?D = "map (\<lambda>rel. project_root self @ rel) (rglob w (ascii ''*.dart''))"
  let ?S = "map (\<lambda>rel. project_root self @ rel) (rglob w (ascii ''*.swift''))"
  let ?P = "\<lambda>w'. \<exists>new1 new2. opened_for_write w' = opened_for_write w @ new1 @ new2 \<and>
     subseq new1 ?D \<and> subseq new2 ?S"
  have base: "?P w'" if "opened_for_write w' = opened_for_write w" for w'
    using that by (intro exI[of _ "[]"]) simp
  show ?thesis
  proof (cases "says ?m1 (self, w)")
    case (Inl x)
    obtain self' w' where st: "run_state (says ?m1 (self, w)) = (self', w')"
      by (cases "run_state (says ?m1 (self, w))") auto
    from says_frame[OF st] have ow: "opened_for_write w' = opened_for_write w" by simp
    have "run (self, w) = says ?m1 (self, w)"
      by (simp only: run_def fst_conv snd_conv Inl sum.case)
    with st have "run_state (run (self, w)) = (self', w')" by (simp only:)
    with base[OF ow] show ?thesis by (simp only: snd_conv)
  next
    case (Inr s1)
    from says_Inr[OF Inr] have s1: "s1 = (self, ?wa)" .
    note a1 = Inr[unfolded s1]
    have fd: "find_files self ?wa (ascii ''*.dart'') = find_files self w (ascii ''*.dart'')"
      by (rule find_files_same_tree[OF same_tree_console]) simp
    show ?thesis
    proof (cases "find_files self w (ascii ''*.dart'')")
      case (Inl e)
      then have "run (self, w) = Inl (e, self, ?wa)"
        by (simp only: run_def fst_conv snd_conv a1 fd sum.case)
      then show ?thesis using base[of ?wa] by (simp add: run_state_def)
    next
      case d: (Inr dart_files)
      from find_files_subseq[OF d] have sd: "subseq dart_files ?D" .
      obtain self2 w2 where st2: "run_state (dart_sweep dart_files (self, ?wa)) = (self2, w2)"
        by (cases "run_state (dart_sweep dart_files (self, ?wa))") auto
      from dart_sweep_frame[OF st2] obtain new1 where
        r2: "project_root self2 = project_root self" and t2: "same_tree ?wa w2"
        and o2: "opened_for_write w2 = opened_for_write w @ new1" and n1: "subseq new1 dart_files"
        by auto
      from n1 sd have n1': "subseq new1 ?D" by (rule subseq_order.trans)
      have P2: "?P w'" if "opened_for_write w' = opened_for_write w2" for w'
        using that o2 n1' by (intro exI[of _ new1] exI[of _ "[]"]) simp
      show ?thesis
      proof (cases "dart_sweep dart_files (self, ?wa)")
        case (Inl x)
        then have "run (self, w) = Inl x"
          by (simp only: run_def fst_conv snd_conv a1 fd d sum.case)
        with Inl st2 P2[of w2] show ?thesis by simp
      next
        case (Inr s2)
        with st2 have s2: "s2 = (self2, w2)" by (simp add: run_state_def)
        note a3 = Inr[unfolded s2]
        let ?m2 = "[Blank, ProcessingSwift]"
        let ?wb = "w2\<lparr>console := console w2 @ ?m2\<rparr>"
        show ?thesis
        proof (cases "says ?m2 (self2, w2)")
          case (Inl x)
          obtain self' w' where st: "run_state (says ?m2 (self2, w2)) = (self', w')"
            by (cases "run_state (says ?m2 (self2, w2))") auto
          from says_frame[OF st] have ow: "opened_for_write w' = opened_for_write w2" by simp
          have "run (self, w) = says ?m2 (self2, w2)"
            by (simp only: run_def fst_conv snd_conv a1 fd d a3 Inl sum.case)
          with st have "run_state (run (self, w)) = (self', w')" by (simp only:)
          with P2[OF ow] show ?thesis by (simp only: snd_conv)
        next
          case (Inr s3)
          from says_Inr[OF Inr] have s3: "s3 = (self2, ?wb)" .
          note a4 = Inr[unfolded s3]
          have tb: "same_tree w ?wb"
            by (rule same_tree_trans[OF same_tree_console
                  same_tree_trans[OF t2 same_tree_console]])
          have fs: "find_files self2 ?wb (ascii ''*.swift'') =
              find_files self w (ascii ''*.swift'')"
            by (rule find_files_same_tree[OF tb r2])
          show ?thesis
          proof (cases "find_files self w (ascii ''*.swift'')")
            case (Inl e)
            then have "run (self, w) = Inl (e, self2, ?wb)"
              by (simp only: run_def fst_conv snd_conv a1 fd d a3 a4 fs sum.case)
            then show ?thesis using P2[of ?wb] by (simp add: run_state_def)
          next
            case sw: (Inr swift_files)
            from find_files_subseq[OF sw] have ss: "subseq swift_files ?S" .
            obtain self4 w4 where
              st4: "run_state (swift_sweep swift_files (self2, ?wb)) = (self4, w4)"
              by (cases "run_state (swift_sweep swift_files (self2, ?wb))") auto
            from swift_sweep_frame[OF st4] obtain new2 where
              o4: "opened_for_write w4 = opened_for_write ?wb @ new2"
              and n2: "subseq new2 swift_files"
              by auto
            from n2 ss have n2': "subseq new2 ?S" by (rule subseq_order.trans)
            have P4: "?P w'" if "opened_for_write w' = opened_for_write w4" for w'
              using that o4 o2 n1' n2' by (intro exI[of _ new1] exI[of _ new2]) simp
            show ?thesis
            proof (cases "swift_sweep swift_files (self2, ?wb)")
              case (Inl x)
              then have "run (self, w) = Inl x"
                by (simp only: run_def fst_conv snd_conv a1 fd d a3 a4 fs sw sum.case)
              with Inl st4 P4[of w4] show ?thesis by simp
            next
              case (Inr s4)
              with st4 have s4: "s4 = (self4, w4)" by (simp add: run_state_def)
              note a6 = Inr[unfolded s4]
              obtain self' w' where
                st: "run_state (says (summary self4) (self4, w4)) = (self', w')"
                by (cases "run_state (says (summary self4) (self4, w4))") auto
              from says_frame[OF st] have ow: "opened_for_write w' = opened_for_write w4"
                by simp
              have "run (self, w) = says (summary self4) (self4, w4)"
                by (simp only: run_def fst_conv snd_conv a1 fd d a3 a4 fs sw a6 sum.case)
              with st have "run_state (run (self, w)) = (self', w')" by (simp only:)
              with P4[OF ow] show ?thesis by (simp only: snd_conv)
            qed
          qed
        qed
      qed
    qed
  qed
qed

lemma run_opened:
  assumes d: "distinct (rglob w (ascii ''*.dart'') @ rglob w (ascii ''*.swift''))"
  shows "\<exists>new. opened_for_write (snd (run_state (run (self, w)))) = opened_for_write w @ new \<and>
    distinct new"
proof -
  let ?root = "project_root self"
  from run_opened_parts[of self w] obtain new1 new2 where
    o: "opened_for_write (snd (run_state (run (self, w)))) = opened_for_write w @ new1 @ new2"
    and s1: "subseq new1 (map (\<lambda>rel. ?root @ rel) (rglob w (ascii ''*.dart'')))"
    and s2: "subseq new2 (map (\<lambda>rel. ?root @ rel) (rglob w (ascii ''*.swift'')))"
    by blast
  have "subseq (new1 @ new2)
      (map (\<lambda>rel. ?root @ rel) (rglob w (ascii ''*.dart'')) @
       map (\<lambda>rel. ?root @ rel) (rglob w (ascii ''*.swift'')))"
    using s1 s2 by (rule list_emb_append_mono)
  moreover have "distinct (map (\<lambda>rel. ?root @ rel)
      (rglob w (ascii ''*.dart'') @ rglob w (ascii ''*.swift'')))"
    using d by (simp only: distinct_map) (auto simp: inj_on_def)
  ultimately have "distinct (new1 @ new2)"
    by (simp only: map_append[symmetric]) (rule subseq_distinct)
  with o show ?thesis by blast
qed

lemma no_print_faults_same_tree: "same_tree w w' \<Longrightarrow> no_print_faults w \<Longrightarrow> no_print_faults w'"
  by (simp add: same_tree_def no_print_faults_def)

lemma errors_reported_append:
  "errors_reported (w\<lparr>console := console w @ ms\<rparr>) =
   errors_reported w + int (length (filter is_error ms))"
  by (simp add: errors_reported_def)

lemma summary_no_error: "filter is_error (summary self) = []"
  by (simp add: summary_def is_error_def)

text \<open>When no \<open>print\<close> raises, a call returns, and it counts the file or reports it.\<close>

lemma clean_dart_returns:
  assumes np: "no_print_faults w"
  shows "\<exists>n self' w'. clean_dart_file p (self, w) = Inr (n, self', w') \<and>
    (dart_files_processed self' - dart_files_processed self) +
      (errors_reported w' - errors_reported w) = 1 \<and>
    swift_files_processed self' = swift_files_processed self"
proof (cases rule: dart_try_cases[of w p self])
  case (read_fails e)
  with np show ?thesis
    by (simp add: clean_dart_of_try_Inl no_print_faults_def errors_reported_def is_error_def)
next
  case (unchanged ls)
  then show ?thesis by (simp add: clean_dart_of_try_Inr)
next
  case (write_fails ls e residue)
  with np show ?thesis
    by (simp add: clean_dart_of_try_Inl no_print_faults_def errors_reported_def is_error_def)
next
  case (print_fails ls e)
  with np show ?thesis by (simp add: no_print_faults_def)
next
  case (written ls)
  then show ?thesis
    by (simp add: clean_dart_of_try_Inr errors_reported_def is_error_def)
qed

lemma clean_swift_returns:
  assumes np: "no_print_faults w"
  shows "\<exists>n self' w'. clean_swift_file p (self, w) = Inr (n, self', w') \<and>
    (swift_files_processed self' - swift_files_processed self) +
      (errors_reported w' - errors_reported w) = 1 \<and>
    dart_files_processed self' = dart_files_processed self"
proof (cases rule: swift_try_cases[of w p self])
  case (read_fails e)
  with np show ?thesis
    by (simp add: clean_swift_of_try_Inl no_print_faults_def errors_reported_def is_error_def)
next
  case (unchanged ls)
  then show ?thesis by (simp add: clean_swift_of_try_Inr)
next
  case (write_fails ls e residue)
  with np show ?thesis
    by (simp add: clean_swift_of_try_Inl no_print_faults_def errors_reported_def is_error_def)
next
  case (print_fails ls e)
  with np show ?thesis by (simp add: no_print_faults_def)
next
  case (written ls)
  then show ?thesis
    by (simp add: clean_swift_of_try_Inr errors_reported_def is_error_def)
qed

lemma dart_sweep_returns:
  "no_print_faults w \<Longrightarrow>
   \<exists>self' w'. dart_sweep fs (self, w) = Inr (self', w') \<and>
    (dart_files_processed self' - dart_files_processed self) +
      (errors_reported w' - errors_reported w) = int (length fs) \<and>
    swift_files_processed self' = swift_files_processed self"
proof (induction fs arbitrary: self w)
  case Nil
  then show ?case by simp
next
  case (Cons p fs)
  from clean_dart_returns[OF Cons.prems, of p self] obtain n self1 w1 where
    c: "clean_dart_file p (self, w) = Inr (n, self1, w1)"
    and a: "(dart_files_processed self1 - dart_files_processed self) +
      (errors_reported w1 - errors_reported w) = 1"
    and b: "swift_files_processed self1 = swift_files_processed self"
    by blast
  from c have "call_state (clean_dart_file p (self, w)) = (self1, w1)"
    by (simp add: call_state_def)
  from clean_dart_frame[OF this] have "same_tree w w1" by simp
  then have "no_print_faults w1" using Cons.prems by (rule no_print_faults_same_tree)
  from Cons.IH[OF this, of self1] obtain self' w' where
    s: "dart_sweep fs (self1, w1) = Inr (self', w')"
    and a': "(dart_files_processed self' - dart_files_processed self1) +
      (errors_reported w' - errors_reported w1) = int (length fs)"
    and b': "swift_files_processed self' = swift_files_processed self1"
    by blast
  from c s a a' b b' show ?case by simp
qed

lemma swift_sweep_returns:
  "no_print_faults w \<Longrightarrow>
   \<exists>self' w'. swift_sweep fs (self, w) = Inr (self', w') \<and>
    (swift_files_processed self' - swift_files_processed self) +
      (errors_reported w' - errors_reported w) = int (length fs) \<and>
    dart_files_processed self' = dart_files_processed self"
proof (induction fs arbitrary: self w)
  case Nil
  then show ?case by simp
next
  case (Cons p fs)
  from clean_swift_returns[OF Cons.prems, of p self] obtain n self1 w1 where
    c: "clean_swift_file p (self, w) = Inr (n, self1, w1)"
    and a: "(swift_files_processed self1 - swift_files_processed self) +
      (errors_reported w1 - errors_reported w) = 1"
    and b: "dart_files_processed self1 = dart_files_processed self"
    by blast
  from c have "call_state (clean_swift_file p (self, w)) = (self1, w1)"
    by (simp add: call_state_def)
  from clean_swift_frame[OF this] have "same_tree w w1" by simp
  then have "no_print_faults w1" using Cons.prems by (rule no_print_faults_same_tree)
  from Cons.IH[OF this, of self1] obtain self' w' where
    s: "swift_sweep fs (self1, w1) = Inr (self', w')"
    and a': "(swift_files_processed self' - swift_files_processed self1) +
      (errors_reported w' - errors_reported w1) = int (length fs)"
    and b': "dart_files_processed self' = dart_files_processed self1"
    by blast
  from c s a a' b b' show ?case by simp
qed

lemma find_files_ok: "no_stat_faults w \<Longrightarrow> \<exists>found. find_files self w pattern = Inr found"
  unfolding find_files_def by (rule find_loop_ok)

text \<open>
  When neither \<open>print\<close> nor \<open>is_file\<close> raises, the run returns after printing
  the summary, and every file found was either counted as processed or reported as an
  error, whatever the reads and writes did.
\<close>

lemma run_completes:
  assumes np: "no_print_faults w" and ns: "no_stat_faults w"
  shows "\<exists>self' w' dart_files swift_files before.
    find_files self w (ascii ''*.dart'') = Inr dart_files \<and>
    find_files self w (ascii ''*.swift'') = Inr swift_files \<and>
    run (self, w) = Inr (self', w') \<and>
    console w' = before @ summary self' \<and>
    (dart_files_processed self' - dart_files_processed self) +
    (swift_files_processed self' - swift_files_processed self) +
    (errors_reported w' - errors_reported w) =
      int (length dart_files) + int (length swift_files)"
proof -
  let ?m1 = "[Banner, Rule, Scanning (project_root self), Blank, ProcessingDart]"
  let ?wa = "w\<lparr>console := console w @ ?m1\<rparr>"
  from find_files_ok[OF ns] obtain dart_files where
    d: "find_files self w (ascii ''*.dart'') = Inr dart_files" by blast
  from find_files_ok[OF ns] obtain swift_files where
    s: "find_files self w (ascii ''*.swift'') = Inr swift_files" by blast
  have npa: "no_print_faults ?wa" using np by (simp add: no_print_faults_def)
  from dart_sweep_returns[OF npa, of dart_files self] obtain self2 w2 where
    a: "dart_sweep dart_files (self, ?wa) = Inr (self2, w2)"
    and a1: "(dart_files_processed self2 - dart_files_processed self) +
      (errors_reported w2 - errors_reported ?wa) = int (length dart_files)"
    and a2: "swift_files_processed self2 = swift_files_processed self"
    by blast
  let ?wb = "w2\<lparr>console := console w2 @ [Blank, ProcessingSwift]\<rparr>"
  from a have "run_state (dart_sweep dart_files (self, ?wa)) = (self2, w2)"
    by (simp add: run_state_def)
  from dart_sweep_frame[OF this] have "same_tree ?wa w2" by simp
  then have "no_print_faults w2" using npa by (rule no_print_faults_same_tree)
  then have npb: "no_print_faults ?wb" by (simp add: no_print_faults_def)
  from swift_sweep_returns[OF npb, of swift_files self2] obtain self4 w4 where
    b: "swift_sweep swift_files (self2, ?wb) = Inr (self4, w4)"
    and b1: "(swift_files_processed self4 - swift_files_processed self2) +
      (errors_reported w4 - errors_reported ?wb) = int (length swift_files)"
    and b2: "dart_files_processed self4 = dart_files_processed self2"
    by blast
  let ?w5 = "w4\<lparr>console := console w4 @ summary self4\<rparr>"
  have r: "run (self, w) = Inr (self4, ?w5)"
    by (rule run_steps[OF d a s b np])
  have ea: "errors_reported ?wa = errors_reported w"
    by (simp add: errors_reported_def is_error_def)
  have eb: "errors_reported ?wb = errors_reported w2"
    by (simp add: errors_reported_def is_error_def)
  have e5: "errors_reported ?w5 = errors_reported w4"
    by (simp add: errors_reported_def summary_no_error)
  have "(dart_files_processed self4 - dart_files_processed self) +
    (swift_files_processed self4 - swift_files_processed self) +
    (errors_reported ?w5 - errors_reported w) =
      int (length dart_files) + int (length swift_files)"
    using a1 a2 b1 b2 ea eb e5 by simp
  moreover have "console ?w5 = console w4 @ summary self4" by simp
  ultimately show ?thesis using d s r by blast
qed

lemma no_faults_same_tree: "same_tree w w' \<Longrightarrow> no_faults w \<Longrightarrow> no_faults w'"
  by (simp add: same_tree_def no_faults_def)

lemma no_stat_faults_same_tree: "same_tree w w' \<Longrightarrow> no_stat_faults w \<Longrightarrow> no_stat_faults w'"
  by (simp add: same_tree_def no_stat_faults_def)

lemma files_clean_shrunk_dart:
  assumes "files_clean dart_clean w ps" "shrunk w w'"
  shows "files_clean dart_clean w' ps"
  unfolding files_clean_def
proof (intro ballI allI impI)
  fix p ls'
  assume p: "p \<in> set ps" and f: "files w' p = Some ls'"
  from assms(2) f obtain ls where "files w p = Some ls" "subseq ls' ls"
    unfolding shrunk_def by blast
  with assms(1) p show "dart_clean ls'"
    unfolding files_clean_def by (blast intro: dart_clean_subseq)
qed

lemma files_clean_shrunk_swift:
  assumes "files_clean swift_clean w ps" "shrunk w w'"
  shows "files_clean swift_clean w' ps"
  unfolding files_clean_def
proof (intro ballI allI impI)
  fix p ls'
  assume p: "p \<in> set ps" and f: "files w' p = Some ls'"
  from assms(2) f obtain ls where "files w p = Some ls" "subseq ls' ls"
    unfolding shrunk_def by blast
  with assms(1) p show "swift_clean ls'"
    unfolding files_clean_def by (blast intro: swift_clean_subseq)
qed

lemma files_clean_Cons:
  "files_clean clean w (p # ps) \<longleftrightarrow> files_clean clean w [p] \<and> files_clean clean w ps"
  by (auto simp: files_clean_def)

lemma files_clean_cong: "files w' = files w \<Longrightarrow> files_clean clean w' ps = files_clean clean w ps"
  by (simp add: files_clean_def)

text \<open>
  When no read and no write raises, a call that returns leaves in every file a
  subsequence of its lines, and in its own file a fixed point of the filter.
\<close>

lemma clean_dart_shrinks:
  assumes c: "clean_dart_file p (self, w) = Inr (n, self', w')" and nf: "no_faults w"
  shows "shrunk w w' \<and> files_clean dart_clean w' [p]"
proof (cases rule: dart_try_cases[of w p self])
  case (read_fails e)
  with nf have "files w p = None"
    by (auto simp: read_lines_def no_faults_def split: option.splits)
  with read_fails c show ?thesis
    by (auto simp: clean_dart_of_try_Inl shrunk_def files_clean_def split: option.splits)
next
  case (unchanged ls)
  from unchanged(2) have "dart_scan ls = ls" by (rule dart_none_removed)
  then have "dart_clean ls" using dart_clean_scan[of ls] by simp
  with unchanged c read_lines_Inr[OF unchanged(1)] show ?thesis
    by (auto simp: clean_dart_of_try_Inr shrunk_def files_clean_def)
next
  case (write_fails ls e residue)
  with nf show ?thesis by (simp add: no_faults_def)
next
  case (print_fails ls e)
  with c read_lines_Inr[OF print_fails(1)] show ?thesis
    by (auto simp: clean_dart_of_try_Inl shrunk_def files_clean_def dart_clean_scan
        dart_scan_subseq split: option.splits if_splits)
next
  case (written ls)
  with c read_lines_Inr[OF written(1)] show ?thesis
    by (auto simp: clean_dart_of_try_Inr shrunk_def files_clean_def dart_clean_scan
        dart_scan_subseq split: if_splits)
qed

lemma clean_swift_shrinks:
  assumes c: "clean_swift_file p (self, w) = Inr (n, self', w')" and nf: "no_faults w"
  shows "shrunk w w' \<and> files_clean swift_clean w' [p]"
proof (cases rule: swift_try_cases[of w p self])
  case (read_fails e)
  with nf have "files w p = None"
    by (auto simp: read_lines_def no_faults_def split: option.splits)
  with read_fails c show ?thesis
    by (auto simp: clean_swift_of_try_Inl shrunk_def files_clean_def split: option.splits)
next
  case (unchanged ls)
  from unchanged(2) have "swift_scan ls = ls" by (rule swift_none_removed)
  then have "swift_clean ls" using swift_clean_scan[of ls] by simp
  with unchanged c read_lines_Inr[OF unchanged(1)] show ?thesis
    by (auto simp: clean_swift_of_try_Inr shrunk_def files_clean_def)
next
  case (write_fails ls e residue)
  with nf show ?thesis by (simp add: no_faults_def)
next
  case (print_fails ls e)
  with c read_lines_Inr[OF print_fails(1)] show ?thesis
    by (auto simp: clean_swift_of_try_Inl shrunk_def files_clean_def swift_clean_scan
        swift_scan_subseq split: option.splits if_splits)
next
  case (written ls)
  with c read_lines_Inr[OF written(1)] show ?thesis
    by (auto simp: clean_swift_of_try_Inr shrunk_def files_clean_def swift_clean_scan
        swift_scan_subseq split: if_splits)
qed

lemma dart_sweep_Cons_Inr:
  assumes "dart_sweep (p # fs) s = Inr s'"
  obtains n s1 where "clean_dart_file p s = Inr (n, s1)" "dart_sweep fs s1 = Inr s'"
  using assms by (auto split: sum.splits)

lemma swift_sweep_Cons_Inr:
  assumes "swift_sweep (p # fs) s = Inr s'"
  obtains n s1 where "clean_swift_file p s = Inr (n, s1)" "swift_sweep fs s1 = Inr s'"
  using assms by (auto split: sum.splits)

lemma dart_sweep_shrinks:
  "dart_sweep fs (self, w) = Inr (self', w') \<Longrightarrow> no_faults w \<Longrightarrow>
   shrunk w w' \<and> files_clean dart_clean w' fs"
proof (induction fs arbitrary: self w)
  case Nil
  then show ?case by (simp add: shrunk_refl files_clean_def)
next
  case (Cons p fs)
  from Cons.prems(1) obtain n s1 where
    c: "clean_dart_file p (self, w) = Inr (n, s1)" and s: "dart_sweep fs s1 = Inr (self', w')"
    by (rule dart_sweep_Cons_Inr)
  obtain self1 w1 where s1: "s1 = (self1, w1)" by (cases s1)
  from clean_dart_shrinks[OF c[unfolded s1] Cons.prems(2)]
  have a: "shrunk w w1" "files_clean dart_clean w1 [p]" by simp_all
  from c have "call_state (clean_dart_file p (self, w)) = (self1, w1)"
    by (simp add: call_state_def s1)
  from clean_dart_frame[OF this] have "same_tree w w1" by simp
  then have nf: "no_faults w1" using Cons.prems(2) by (rule no_faults_same_tree)
  from Cons.IH[OF s[unfolded s1] nf]
  have b: "shrunk w1 w'" "files_clean dart_clean w' fs" by simp_all
  from a(2) b(1) have "files_clean dart_clean w' [p]" by (rule files_clean_shrunk_dart)
  with b(2) shrunk_trans[OF a(1) b(1)] show ?case
    by (simp add: files_clean_Cons[of _ _ p fs])
qed

lemma swift_sweep_shrinks:
  "swift_sweep fs (self, w) = Inr (self', w') \<Longrightarrow> no_faults w \<Longrightarrow>
   shrunk w w' \<and> files_clean swift_clean w' fs"
proof (induction fs arbitrary: self w)
  case Nil
  then show ?case by (simp add: shrunk_refl files_clean_def)
next
  case (Cons p fs)
  from Cons.prems(1) obtain n s1 where
    c: "clean_swift_file p (self, w) = Inr (n, s1)" and s: "swift_sweep fs s1 = Inr (self', w')"
    by (rule swift_sweep_Cons_Inr)
  obtain self1 w1 where s1: "s1 = (self1, w1)" by (cases s1)
  from clean_swift_shrinks[OF c[unfolded s1] Cons.prems(2)]
  have a: "shrunk w w1" "files_clean swift_clean w1 [p]" by simp_all
  from c have "call_state (clean_swift_file p (self, w)) = (self1, w1)"
    by (simp add: call_state_def s1)
  from clean_swift_frame[OF this] have "same_tree w w1" by simp
  then have nf: "no_faults w1" using Cons.prems(2) by (rule no_faults_same_tree)
  from Cons.IH[OF s[unfolded s1] nf]
  have b: "shrunk w1 w'" "files_clean swift_clean w' fs" by simp_all
  from a(2) b(1) have "files_clean swift_clean w' [p]" by (rule files_clean_shrunk_swift)
  with b(2) shrunk_trans[OF a(1) b(1)] show ?case
    by (simp add: files_clean_Cons[of _ _ p fs])
qed

text \<open>Cleaning files that are fixed points of the filter changes no file and no total.\<close>

lemma clean_dart_on_clean:
  assumes c: "clean_dart_file p (self, w) = Inr (n, self', w')"
    and cl: "files_clean dart_clean w [p]"
  shows "n = 0 \<and> total_lines_removed self' = total_lines_removed self \<and>
    files w' = files w \<and> opened_for_write w' = opened_for_write w"
proof (cases "read_lines w p")
  case (Inl e)
  then have "dart_try p (self, w) = Inl (e, self, w)" by (simp add: dart_try_def)
  with c show ?thesis by (auto simp: clean_dart_of_try_Inl split: option.splits)
next
  case (Inr ls)
  with cl have "dart_clean ls" by (auto simp: files_clean_def dest: read_lines_Inr)
  then have "dart_scan ls = ls" by (rule dart_clean_fixed)
  then have "lines_removed ls (dart_scan ls) = 0" by (simp add: lines_removed_def)
  with Inr have "dart_try p (self, w) =
      Inr (0, self\<lparr>dart_files_processed := dart_files_processed self + 1\<rparr>, w)"
    by (simp add: dart_try_def Let_def)
  with c show ?thesis by (auto simp: clean_dart_of_try_Inr)
qed

lemma clean_swift_on_clean:
  assumes c: "clean_swift_file p (self, w) = Inr (n, self', w')"
    and cl: "files_clean swift_clean w [p]"
  shows "n = 0 \<and> total_lines_removed self' = total_lines_removed self \<and>
    files w' = files w \<and> opened_for_write w' = opened_for_write w"
proof (cases "read_lines w p")
  case (Inl e)
  then have "swift_try p (self, w) = Inl (e, self, w)" by (simp add: swift_try_def)
  with c show ?thesis by (auto simp: clean_swift_of_try_Inl split: option.splits)
next
  case (Inr ls)
  with cl have "swift_clean ls" by (auto simp: files_clean_def dest: read_lines_Inr)
  then have "swift_scan ls = ls" by (rule swift_clean_fixed)
  then have "lines_removed ls (swift_scan ls) = 0" by (simp add: lines_removed_def)
  with Inr have "swift_try p (self, w) =
      Inr (0, self\<lparr>swift_files_processed := swift_files_processed self + 1\<rparr>, w)"
    by (simp add: swift_try_def Let_def)
  with c show ?thesis by (auto simp: clean_swift_of_try_Inr)
qed

lemma dart_sweep_on_clean:
  "dart_sweep fs (self, w) = Inr (self', w') \<Longrightarrow> files_clean dart_clean w fs \<Longrightarrow>
   total_lines_removed self' = total_lines_removed self \<and> files w' = files w \<and>
   opened_for_write w' = opened_for_write w"
proof (induction fs arbitrary: self w)
  case Nil
  then show ?case by simp
next
  case (Cons p fs)
  from Cons.prems(1) obtain n s1 where
    c: "clean_dart_file p (self, w) = Inr (n, s1)" and s: "dart_sweep fs s1 = Inr (self', w')"
    by (rule dart_sweep_Cons_Inr)
  obtain self1 w1 where s1: "s1 = (self1, w1)" by (cases s1)
  from Cons.prems(2) have cl: "files_clean dart_clean w [p]" "files_clean dart_clean w fs"
    by (simp_all add: files_clean_Cons[of _ _ p fs])
  from clean_dart_on_clean[OF c[unfolded s1] cl(1)]
  have a: "total_lines_removed self1 = total_lines_removed self" "files w1 = files w"
    "opened_for_write w1 = opened_for_write w" by simp_all
  from cl(2) files_clean_cong[OF a(2), of dart_clean fs]
  have cl1: "files_clean dart_clean w1 fs" by simp
  from Cons.IH[OF s[unfolded s1] cl1] a show ?case by simp
qed

lemma swift_sweep_on_clean:
  "swift_sweep fs (self, w) = Inr (self', w') \<Longrightarrow> files_clean swift_clean w fs \<Longrightarrow>
   total_lines_removed self' = total_lines_removed self \<and> files w' = files w \<and>
   opened_for_write w' = opened_for_write w"
proof (induction fs arbitrary: self w)
  case Nil
  then show ?case by simp
next
  case (Cons p fs)
  from Cons.prems(1) obtain n s1 where
    c: "clean_swift_file p (self, w) = Inr (n, s1)" and s: "swift_sweep fs s1 = Inr (self', w')"
    by (rule swift_sweep_Cons_Inr)
  obtain self1 w1 where s1: "s1 = (self1, w1)" by (cases s1)
  from Cons.prems(2) have cl: "files_clean swift_clean w [p]" "files_clean swift_clean w fs"
    by (simp_all add: files_clean_Cons[of _ _ p fs])
  from clean_swift_on_clean[OF c[unfolded s1] cl(1)]
  have a: "total_lines_removed self1 = total_lines_removed self" "files w1 = files w"
    "opened_for_write w1 = opened_for_write w" by simp_all
  from cl(2) files_clean_cong[OF a(2), of swift_clean fs]
  have cl1: "files_clean swift_clean w1 fs" by simp
  from Cons.IH[OF s[unfolded s1] cl1] a show ?case by simp
qed

text \<open>
  A second run after a run that returned, when no read and no write raises: every file
  found is a fixed point of its filter, so nothing is removed and nothing is written.
\<close>

lemma second_run_removes_nothing:
  assumes nf: "no_faults w"
    and r1: "run (init root, w) = Inr s1"
    and r2: "run (init root, snd s1) = Inr s2"
  shows "total_lines_removed (fst s2) = 0 \<and> files (snd s2) = files (snd s1) \<and>
    opened_for_write (snd s2) = opened_for_write (snd s1)"
proof -
  define self where "self = init root"
  let ?m1 = "[Banner, Rule, Scanning (project_root self), Blank, ProcessingDart]"
  let ?m2 = "[Blank, ProcessingSwift]"
  from r1[folded self_def] obtain self2 w2 self4 w4 D S where
    d: "find_files self w (ascii ''*.dart'') = Inr D"
    and a: "dart_sweep D (self, w\<lparr>console := console w @ ?m1\<rparr>) = Inr (self2, w2)"
    and s: "find_files self w (ascii ''*.swift'') = Inr S"
    and b: "swift_sweep S (self2, w2\<lparr>console := console w2 @ ?m2\<rparr>) = Inr (self4, w4)"
    and s1: "s1 = (self4, w4\<lparr>console := console w4 @ summary self4\<rparr>)"
    by (rule run_Inr)
  let ?wa = "w\<lparr>console := console w @ ?m1\<rparr>"
  let ?wb = "w2\<lparr>console := console w2 @ ?m2\<rparr>"
  let ?w5 = "w4\<lparr>console := console w4 @ summary self4\<rparr>"
  \<comment> \<open>after the first run every file found is a fixed point of its filter\<close>
  have ta: "same_tree w ?wa" by (rule same_tree_console)
  then have nfa: "no_faults ?wa" using nf by (rule no_faults_same_tree)
  from dart_sweep_shrinks[OF a nfa] have cd2: "files_clean dart_clean w2 D" by simp
  from a have "run_state (dart_sweep D (self, ?wa)) = (self2, w2)" by (simp add: run_state_def)
  from dart_sweep_frame[OF this] have t2: "same_tree ?wa w2" by simp
  have tb: "same_tree w2 ?wb" by (rule same_tree_console)
  have nfb: "no_faults ?wb"
    using no_faults_same_tree[OF tb no_faults_same_tree[OF t2 nfa]] .
  from swift_sweep_shrinks[OF b nfb]
  have sh: "shrunk ?wb w4" and cs4: "files_clean swift_clean w4 S" by simp_all
  from b have "run_state (swift_sweep S (self2, ?wb)) = (self4, w4)" by (simp add: run_state_def)
  from swift_sweep_frame[OF this] have t4: "same_tree ?wb w4" by simp
  have "files_clean dart_clean ?wb D"
    using cd2 by (simp add: files_clean_def)
  then have cd4: "files_clean dart_clean w4 D" using sh by (rule files_clean_shrunk_dart)
  have t5: "same_tree w ?w5"
    by (rule same_tree_trans[OF ta same_tree_trans[OF t2 same_tree_trans[OF tb
          same_tree_trans[OF t4 same_tree_console]]]])
  have D5: "find_files self ?w5 (ascii ''*.dart'') = Inr D"
    using find_files_same_tree[OF t5, of self self] d by simp
  have S5: "find_files self ?w5 (ascii ''*.swift'') = Inr S"
    using find_files_same_tree[OF t5, of self self] s by simp
  \<comment> \<open>the second run\<close>
  from r2[folded self_def, unfolded s1 snd_conv] obtain self6 w6 self8 w8 D' S' where
    d': "find_files self ?w5 (ascii ''*.dart'') = Inr D'"
    and c: "dart_sweep D' (self, ?w5\<lparr>console := console ?w5 @ ?m1\<rparr>) = Inr (self6, w6)"
    and s': "find_files self ?w5 (ascii ''*.swift'') = Inr S'"
    and e: "swift_sweep S' (self6, w6\<lparr>console := console w6 @ ?m2\<rparr>) = Inr (self8, w8)"
    and s2: "s2 = (self8, w8\<lparr>console := console w8 @ summary self8\<rparr>)"
    by (rule run_Inr)
  from d' D5 have DD: "D' = D" by simp
  from s' S5 have SS: "S' = S" by simp
  let ?wc = "?w5\<lparr>console := console ?w5 @ ?m1\<rparr>"
  let ?wd = "w6\<lparr>console := console w6 @ ?m2\<rparr>"
  have "files_clean dart_clean ?wc D"
    using cd4 by (simp add: files_clean_def)
  from dart_sweep_on_clean[OF c[unfolded DD] this]
  have e6: "total_lines_removed self6 = total_lines_removed self" "files w6 = files ?wc"
    "opened_for_write w6 = opened_for_write ?wc" by simp_all
  have "files_clean swift_clean ?wd S"
    using cs4 e6(2) by (simp add: files_clean_def)
  from swift_sweep_on_clean[OF e[unfolded SS] this]
  have e8: "total_lines_removed self8 = total_lines_removed self6" "files w8 = files ?wd"
    "opened_for_write w8 = opened_for_write ?wd" by simp_all
  have "total_lines_removed self8 = 0"
    using e6(1) e8(1) by (simp add: self_def init_def)
  moreover have "files w8 = files ?w5"
    using e6(2) e8(2) by simp
  moreover have "opened_for_write w8 = opened_for_write ?w5"
    using e6(3) e8(3) by simp
  ultimately show ?thesis
    by (simp add: s1 s2)
qed

lemma run_same_tree:
  assumes "run (self, w) = Inr (self', w')"
  shows "same_tree w w'"
proof -
  let ?m1 = "[Banner, Rule, Scanning (project_root self), Blank, ProcessingDart]"
  let ?m2 = "[Blank, ProcessingSwift]"
  from assms obtain self2 w2 self4 w4 D S where
    a: "dart_sweep D (self, w\<lparr>console := console w @ ?m1\<rparr>) = Inr (self2, w2)"
    and b: "swift_sweep S (self2, w2\<lparr>console := console w2 @ ?m2\<rparr>) = Inr (self4, w4)"
    and s: "(self', w') = (self4, w4\<lparr>console := console w4 @ summary self4\<rparr>)"
    by (rule run_Inr)
  let ?wa = "w\<lparr>console := console w @ ?m1\<rparr>"
  let ?wb = "w2\<lparr>console := console w2 @ ?m2\<rparr>"
  from a have "run_state (dart_sweep D (self, ?wa)) = (self2, w2)" by (simp add: run_state_def)
  from dart_sweep_frame[OF this] have t2: "same_tree ?wa w2" by simp
  from b have "run_state (swift_sweep S (self2, ?wb)) = (self4, w4)" by (simp add: run_state_def)
  from swift_sweep_frame[OF this] have t4: "same_tree ?wb w4" by simp
  have "same_tree w (w4\<lparr>console := console w4 @ summary self4\<rparr>)"
    by (rule same_tree_trans[OF same_tree_console same_tree_trans[OF t2
          same_tree_trans[OF same_tree_console same_tree_trans[OF t4 same_tree_console]]]])
  with s show ?thesis by simp
qed

lemma two_runs_return:
  assumes np: "no_print_faults w" and ns: "no_stat_faults w"
  shows "\<exists>s1 s2. run (self, w) = Inr s1 \<and> run (self, snd s1) = Inr s2"
proof -
  from run_completes[OF np ns, of self] obtain self1 w1 where
    r1: "run (self, w) = Inr (self1, w1)" by blast
  from run_same_tree[OF r1] have t: "same_tree w w1" .
  from run_completes[OF no_print_faults_same_tree[OF t np] no_stat_faults_same_tree[OF t ns],
      of self]
  obtain s2 where "run (self, w1) = Inr s2" by blast
  with r1 show ?thesis by simp
qed

lemmas example_defs = example_world_def example_files_def faulty_world_def mute_world_def
  denied_world_def read_lines_def

lemmas run_defs = run_def find_files_def init_def is_file_def starts_with_dot_def
  clean_dart_file_def clean_swift_file_def dart_try_def swift_try_def write_lines_def say_def
  lines_removed_def name_def Let_def summary_def

lemma ex_run1:
  "\<exists>w1. run (init [ascii ''proj''], example_world) =
     Inr (\<lparr>project_root = [ascii ''proj''], dart_files_processed = 2,
           swift_files_processed = 2, total_lines_removed = 2\<rparr>, w1)"
  by (simp add: run_defs example_defs pattern_defs)



lemma ex_no_faults:
  "no_faults example_world" "no_print_faults example_world" "no_stat_faults example_world"
  by (simp_all add: no_faults_def no_print_faults_def no_stat_faults_def example_world_def)


lemma ex_read_c: "read_lines example_world [ascii ''proj'', ascii ''c.dart''] =
    Inr [ascii ''return;'' @ [newline]]"
  by (simp add: example_defs ascii_def)

lemma ex_read_d: "read_lines example_world [ascii ''proj'', ascii ''d.swift''] =
    Inr [ascii ''return'' @ [newline]]"
  by (simp add: example_defs ascii_def)



lemma ex_clean_c:
  "\<forall>l\<in>set [ascii ''return;'' @ [newline]].
     \<not> re_match dart_block_start l \<and> \<not> should_remove dart_patterns l"
  by (simp add: pattern_defs)

lemma ex_clean_d:
  "\<forall>l\<in>set [ascii ''return'' @ [newline]].
     \<not> re_match swift_block_start l \<and> \<not> should_remove swift_patterns l"
  by (simp add: pattern_defs)

lemma ex_distinct:
  "distinct (rglob example_world (ascii ''*.dart'') @ rglob example_world (ascii ''*.swift''))"
  by (simp add: example_world_def ascii_def)

lemma dart_try_read_fails:
  "read_lines w p = Inl e \<Longrightarrow> dart_try p (self, w) = Inl (e, self, w)"
  by (simp add: dart_try_def)

lemma swift_try_read_fails:
  "read_lines w p = Inl e \<Longrightarrow> swift_try p (self, w) = Inl (e, self, w)"
  by (simp add: swift_try_def)

lemma dart_try_unchanged:
  "read_lines w p = Inr ls \<Longrightarrow> \<not> 0 < lines_removed ls (dart_scan ls) \<Longrightarrow>
   dart_try p (self, w) =
     Inr (lines_removed ls (dart_scan ls),
       self\<lparr>dart_files_processed := dart_files_processed self + 1\<rparr>, w)"
  by (simp add: dart_try_def Let_def)

lemma swift_try_unchanged:
  "read_lines w p = Inr ls \<Longrightarrow> \<not> 0 < lines_removed ls (swift_scan ls) \<Longrightarrow>
   swift_try p (self, w) =
     Inr (lines_removed ls (swift_scan ls),
       self\<lparr>swift_files_processed := swift_files_processed self + 1\<rparr>, w)"
  by (simp add: swift_try_def Let_def)



lemma dart_try_raises_iff:
  "(\<exists>x. dart_try p (self, w) = Inl x) \<longleftrightarrow>
   (\<exists>e. read_lines w p = Inl e) \<or>
   (\<exists>ls. read_lines w p = Inr ls \<and> 0 < lines_removed ls (dart_scan ls) \<and>
      (write_fault w p \<noteq> None \<or>
       print_fault w (console w) (Removed (lines_removed ls (dart_scan ls)) (name p)) \<noteq> None))"
  by (cases rule: dart_try_cases[of w p self]) auto

lemma swift_try_raises_iff:
  "(\<exists>x. swift_try p (self, w) = Inl x) \<longleftrightarrow>
   (\<exists>e. read_lines w p = Inl e) \<or>
   (\<exists>ls. read_lines w p = Inr ls \<and> 0 < lines_removed ls (swift_scan ls) \<and>
      (write_fault w p \<noteq> None \<or>
       print_fault w (console w) (Removed (lines_removed ls (swift_scan ls)) (name p)) \<noteq> None))"
  by (cases rule: swift_try_cases[of w p self]) auto

lemma dart_try_Inl_counter:
  "dart_try p (self, w) = Inl (e, self', w') \<Longrightarrow> self' = self"
  by (cases rule: dart_try_cases[of w p self]) auto

lemma swift_try_Inl_counter:
  "swift_try p (self, w) = Inl (e, self', w') \<Longrightarrow> self' = self"
  by (cases rule: swift_try_cases[of w p self]) auto

lemma dart_try_Inr_counter:
  "dart_try p (self, w) = Inr (n, self', w') \<Longrightarrow>
   dart_files_processed self' = dart_files_processed self + 1 \<and>
   opened_for_write w' = opened_for_write w @ (if 0 < n then [p] else [])"
  by (cases rule: dart_try_cases[of w p self]) auto

lemma swift_try_Inr_counter:
  "swift_try p (self, w) = Inr (n, self', w') \<Longrightarrow>
   swift_files_processed self' = swift_files_processed self + 1 \<and>
   opened_for_write w' = opened_for_write w @ (if 0 < n then [p] else [])"
  by (cases rule: swift_try_cases[of w p self]) auto

lemma ex_faulty_reads:
  "read_lines faulty_world [ascii ''proj'', ascii ''c.dart''] = Inl (OSError ''Permission denied'')"
  "read_lines faulty_world [ascii ''proj'', ascii ''d.swift''] =
     Inl (UnicodeError ''invalid start byte'')"
  "read_lines faulty_world [ascii ''proj'', ascii ''a.dart''] =
     Inr [ascii ''print(1);'' @ [newline], ascii ''run();'' @ [newline]]"
  "read_lines faulty_world [ascii ''proj'', ascii ''b.swift''] =
     Inr [ascii ''print(1)'' @ [newline], ascii ''run()'' @ [newline]]"
  by (simp_all add: example_defs ascii_def)



lemma ex_names:
  "name [ascii ''proj'', ascii ''a.dart''] = ascii ''a.dart''"
  "name [ascii ''proj'', ascii ''b.swift''] = ascii ''b.swift''"
  "name [ascii ''proj'', ascii ''c.dart''] = ascii ''c.dart''"
  "name [ascii ''proj'', ascii ''d.swift''] = ascii ''d.swift''"
  by (simp_all add: name_def ascii_def)

lemma ex_faulty_prints: "print_fault faulty_world c m = None" "console faulty_world = []"
  "opened_for_write faulty_world = []"
  by (simp_all add: example_defs)

section \<open>The line filters: examples, block removal, idempotence, order\<close>

text \<open>
  C1. The Dart filter on the five lines \<open>print("x");\<close>, \<open>if (kDebugMode) {\<close>,
  \<open>  doSomething();\<close>, \<open>}\<close>, \<open>return;\<close> (each ended by a newline) returns
  the single line \<open>return;\<close>, and the count of removed lines is 4.
\<close>

theorem dart_example_five_lines:
  "dart_scan [ascii ''print(\"x\");'' @ [newline], ascii ''if (kDebugMode) {'' @ [newline],
      ascii ''  doSomething();'' @ [newline], ascii ''}'' @ [newline],
      ascii ''return;'' @ [newline]] = [ascii ''return;'' @ [newline]] \<and>
   lines_removed
     [ascii ''print(\"x\");'' @ [newline], ascii ''if (kDebugMode) {'' @ [newline],
      ascii ''  doSomething();'' @ [newline], ascii ''}'' @ [newline],
      ascii ''return;'' @ [newline]]
     (dart_scan [ascii ''print(\"x\");'' @ [newline], ascii ''if (kDebugMode) {'' @ [newline],
      ascii ''  doSomething();'' @ [newline], ascii ''}'' @ [newline],
      ascii ''return;'' @ [newline]]) = 4"
  by (simp add: pattern_defs lines_removed_def)

text \<open>
  C2. A line matching the \<open>kDebugMode\<close> block opener, followed by a body on which the
  nesting counter, started at 1, stays positive after every line but the last and is 0
  after the last, is removed as one unit wherever it stands in the file: the result of
  the Dart filter is the result on the file without the opener and the body, so neither
  the opener, nor an inner block, nor any other line of the body, nor the closing line
  is emitted.
\<close>

theorem dart_block_removed_as_unit:
  assumes op: "re_match dart_block_start opener"
    and ne: "body \<noteq> []"
    and pos: "\<forall>v\<in>set (butlast (running_counts 1 body)). 0 < v"
    and fin: "last (running_counts 1 body) = 0"
  shows "dart_scan (pre @ opener # body @ rest) = dart_scan (pre @ rest)"
proof (induction pre rule: dart_scan.induct)
  case 1
  have "dart_skip (0 + 1) (body @ rest) = dart_skip 0 rest"
    by (rule dart_skip_body[OF ne pos fin]) simp
  then show ?case using op by (simp add: dart_skip_nonpos)
next
  case (2 line ls)
  let ?B = "opener # body @ rest"
  show ?case
  proof (cases "re_match dart_block_start line")
    case True
    show ?thesis
    proof (cases "\<forall>v\<in>set (running_counts 1 ls). 0 < v")
      case through: True
      let ?c = "1 + sum_list (map brace_delta ls)"
      have "last (1 # running_counts 1 ls) \<in> set (1 # running_counts 1 ls)"
        by (rule last_in_set) simp
      with through have "0 < last (1 # running_counts 1 ls)" by auto
      then have c: "0 < ?c" by (simp only: running_counts_last)
      have "dart_skip 1 (ls @ ?B) = dart_skip ?c ?B"
        using through by (intro dart_skip_through) auto
      also have "\<dots> = dart_skip ?c rest"
        by (rule dart_skip_block[OF op ne pos fin c])
      also have "\<dots> = dart_skip 1 (ls @ rest)"
        using through by (intro dart_skip_through[symmetric]) auto
      finally show ?thesis using True by simp
    next
      case False
      then have a: "dart_skip 1 (ls @ ?B) = dart_skip 1 ls @ ?B"
        and b: "dart_skip 1 (ls @ rest) = dart_skip 1 ls @ rest"
        by (simp_all add: dart_skip_stops)
      from 2(1)[OF True] a b True show ?thesis by simp
    qed
  next
    case False
    with 2 show ?thesis by simp
  qed
qed

theorem dart_block_removed_as_unit_witness:
  "re_match dart_block_start (ascii ''if (kDebugMode) {'' @ [newline]) \<and>
   running_counts 1
      [ascii ''  if (x) {'' @ [newline], ascii ''    f();'' @ [newline],
       ascii ''  }'' @ [newline], ascii ''}'' @ [newline]] = [2, 2, 1, 0] \<and>
   dart_scan ([ascii ''a();'' @ [newline]] @ (ascii ''if (kDebugMode) {'' @ [newline]) #
      [ascii ''  if (x) {'' @ [newline], ascii ''    f();'' @ [newline],
       ascii ''  }'' @ [newline], ascii ''}'' @ [newline]] @ [ascii ''return;'' @ [newline]]) =
   dart_scan ([ascii ''a();'' @ [newline]] @ [ascii ''return;'' @ [newline]])"
proof -
  have a: "re_match dart_block_start (ascii ''if (kDebugMode) {'' @ [newline])"
    by (simp add: pattern_defs)
  have b: "running_counts 1
      [ascii ''  if (x) {'' @ [newline], ascii ''    f();'' @ [newline],
       ascii ''  }'' @ [newline], ascii ''}'' @ [newline]] = [2, 2, 1, 0]"
    by (simp add: pattern_defs)
  have c: "\<forall>v\<in>set (butlast (running_counts 1
      [ascii ''  if (x) {'' @ [newline], ascii ''    f();'' @ [newline],
       ascii ''  }'' @ [newline], ascii ''}'' @ [newline]])). 0 < v"
    unfolding b by simp
  have d: "last (running_counts 1
      [ascii ''  if (x) {'' @ [newline], ascii ''    f();'' @ [newline],
       ascii ''  }'' @ [newline], ascii ''}'' @ [newline]]) = 0"
    unfolding b by simp
  have e: "[ascii ''  if (x) {'' @ [newline], ascii ''    f();'' @ [newline], ascii ''  }'' @ [newline],
    ascii ''}'' @ [newline]] \<noteq> []" by simp
  from dart_block_removed_as_unit[OF a e c d, of "[ascii ''a();'' @ [newline]]" "[ascii ''return;'' @ [newline]]"]
  show ?thesis using a b by blast
qed

text \<open>
  C3. A line matching \<open>#if DEBUG\<close>, followed by lines none of which matches
  \<open>#endif\<close> and then by a line that does, is discarded by the Swift filter together
  with those lines and the terminator, wherever it stands in the file; the lines after
  the terminator are filtered by the normal scan, started afresh on them.
\<close>

theorem swift_block_removed:
  assumes st: "re_match swift_block_start start"
    and mid: "\<forall>l\<in>set mid. \<not> re_match swift_block_end l"
    and en: "re_match swift_block_end terminator"
  shows "swift_scan (pre @ start # mid @ terminator # rest) = swift_scan pre @ swift_scan rest"
proof (induction pre rule: swift_scan.induct)
  case 1
  have "swift_skip (mid @ terminator # rest) = rest"
    using mid en by (simp add: swift_skip_append list_ex_iff)
  then show ?case using st by simp
next
  case (2 line ls)
  let ?B = "start # mid @ terminator # rest"
  show ?case
  proof (cases "re_match swift_block_start line")
    case True
    show ?thesis
    proof (cases "list_ex (re_match swift_block_end) ls")
      case found: True
      then have "swift_skip (ls @ ?B) = swift_skip ls @ ?B"
        by (simp add: swift_skip_append)
      with 2(1)[OF True] True show ?thesis by simp
    next
      case False
      have "swift_skip (mid @ terminator # rest) = rest"
        using mid en by (simp add: swift_skip_append list_ex_iff)
      then have "swift_skip (ls @ ?B) = rest"
        using False swift_start_not_end[OF st] by (simp add: swift_skip_append)
      with False True show ?thesis by (simp add: swift_skip_none)
    qed
  next
    case False
    with 2 show ?thesis by simp
  qed
qed

theorem swift_block_removed_witness:
  "re_match swift_block_start (ascii ''#if DEBUG'' @ [newline]) \<and>
   \<not> re_match swift_block_end (ascii ''  dump()'' @ [newline]) \<and>
   re_match swift_block_end (ascii ''#endif'' @ [newline]) \<and>
   swift_scan ([ascii ''let a = 1'' @ [newline]] @ (ascii ''#if DEBUG'' @ [newline]) #
      [ascii ''  dump()'' @ [newline]] @ (ascii ''#endif'' @ [newline]) #
      [ascii ''print(a)'' @ [newline], ascii ''run()'' @ [newline]]) =
   swift_scan [ascii ''let a = 1'' @ [newline]] @
   swift_scan [ascii ''print(a)'' @ [newline], ascii ''run()'' @ [newline]]"
proof -
  have a: "re_match swift_block_start (ascii ''#if DEBUG'' @ [newline])"
    by (simp add: pattern_defs)
  have b: "\<forall>l\<in>set [ascii ''  dump()'' @ [newline]]. \<not> re_match swift_block_end l"
    by (simp add: pattern_defs)
  have c: "re_match swift_block_end (ascii ''#endif'' @ [newline])"
    by (simp add: pattern_defs)
  from swift_block_removed[OF a b c, of "[ascii ''let a = 1'' @ [newline]]"
      "[ascii ''print(a)'' @ [newline], ascii ''run()'' @ [newline]]"]
  show ?thesis using a b c by simp
qed

text \<open>
  C4. When a block opener is followed by lines that never meet the end condition of the
  skip, the opener and all lines after it are discarded, and the output is the output of
  the filter on the lines before the opener. For Dart the inner loop runs while
  \<open>brace_count > 0\<close>, so the condition is that the counter, started at 1, is
  positive after each of the following lines; for Swift it is that none of them matches
  \<open>#endif\<close>. Both filters are total functions, so the scan ends and raises
  nothing.
\<close>

theorem unterminated_block_discards_rest:
  "(re_match dart_block_start opener \<longrightarrow> (\<forall>v\<in>set (running_counts 1 ls). 0 < v) \<longrightarrow>
      dart_scan (pre @ opener # ls) = dart_scan pre) \<and>
   (re_match swift_block_start opener \<longrightarrow> (\<forall>l\<in>set ls. \<not> re_match swift_block_end l) \<longrightarrow>
      swift_scan (pre @ opener # ls) = swift_scan pre)"
  using dart_unterminated[of opener ls pre] swift_unterminated[of opener ls pre] by blast

theorem unterminated_block_discards_rest_witness:
  "re_match dart_block_start (ascii ''if (kDebugMode) {'' @ [newline]) \<and>
   running_counts 1 [ascii ''  f();'' @ [newline]] = [1] \<and>
   dart_scan ([ascii ''a();'' @ [newline]] @ (ascii ''if (kDebugMode) {'' @ [newline]) #
      [ascii ''  f();'' @ [newline]]) = dart_scan [ascii ''a();'' @ [newline]] \<and>
   re_match swift_block_start (ascii ''#if DEBUG'' @ [newline]) \<and>
   \<not> re_match swift_block_end (ascii ''  f()'' @ [newline]) \<and>
   swift_scan ([ascii ''a()'' @ [newline]] @ (ascii ''#if DEBUG'' @ [newline]) #
      [ascii ''  f()'' @ [newline]]) = swift_scan [ascii ''a()'' @ [newline]]"
proof -
  have a: "re_match dart_block_start (ascii ''if (kDebugMode) {'' @ [newline])"
    by (simp add: pattern_defs)
  have b0: "running_counts 1 [ascii ''  f();'' @ [newline]] = [1]"
    by (simp add: pattern_defs)
  have b: "\<forall>v\<in>set (running_counts 1 [ascii ''  f();'' @ [newline]]). 0 < v"
    unfolding b0 by simp
  have c: "re_match swift_block_start (ascii ''#if DEBUG'' @ [newline])"
    by (simp add: pattern_defs)
  have d: "\<forall>l\<in>set [ascii ''  f()'' @ [newline]]. \<not> re_match swift_block_end l"
    by (simp add: pattern_defs)
  from unterminated_block_discards_rest[of "ascii ''if (kDebugMode) {'' @ [newline]"
      "[ascii ''  f();'' @ [newline]]" "[ascii ''a();'' @ [newline]]"]
    unterminated_block_discards_rest[of "ascii ''#if DEBUG'' @ [newline]"
      "[ascii ''  f()'' @ [newline]]" "[ascii ''a()'' @ [newline]]"]
  show ?thesis using a b0 b c d by simp
qed

text \<open>
  A counter that is never 0 does not keep the Dart skip going: after the opener, the
  line \<open>}}\<close> takes the counter from 1 to -1, the skip ends there, and the line
  after it is emitted.
\<close>

theorem unterminated_block_counterexample:
  "re_match dart_block_start (ascii ''if (kDebugMode) {'' @ [newline]) \<and>
   running_counts 1
     [ascii ''  log();'' @ [newline], ascii ''}}'' @ [newline], ascii ''g();'' @ [newline]] =
     [1, - 1, - 1] \<and>
   dart_scan [ascii ''void f() {'' @ [newline], ascii ''if (kDebugMode) {'' @ [newline],
     ascii ''  log();'' @ [newline], ascii ''}}'' @ [newline], ascii ''g();'' @ [newline]] =
     [ascii ''void f() {'' @ [newline], ascii ''g();'' @ [newline]] \<and>
   dart_scan [ascii ''void f() {'' @ [newline]] = [ascii ''void f() {'' @ [newline]]"
  by (simp add: pattern_defs)

text \<open>
  C5. Both filters are idempotent: the output of a filter is a fixed point of it, and
  filtering it again removes no line. Hence, in a world where no read and no write
  raises, a second run of the tool right after a first one reports 0 lines removed in
  total, opens no file for writing and leaves every file as the first run left it; and
  when no \<open>print\<close> and no \<open>is_file\<close> raises either, both runs return.
\<close>

theorem filters_idempotent:
  "dart_scan (dart_scan ls) = dart_scan ls \<and>
   lines_removed (dart_scan ls) (dart_scan (dart_scan ls)) = 0 \<and>
   swift_scan (swift_scan ls) = swift_scan ls \<and>
   lines_removed (swift_scan ls) (swift_scan (swift_scan ls)) = 0 \<and>
   (no_faults w \<longrightarrow> run (init root, w) = Inr s1 \<longrightarrow> run (init root, snd s1) = Inr s2 \<longrightarrow>
      total_lines_removed (fst s2) = 0 \<and> files (snd s2) = files (snd s1) \<and>
      opened_for_write (snd s2) = opened_for_write (snd s1)) \<and>
   (no_print_faults w \<longrightarrow> no_stat_faults w \<longrightarrow>
      (\<exists>t1 t2. run (init root, w) = Inr t1 \<and> run (init root, snd t1) = Inr t2))"
proof -
  have d: "dart_scan (dart_scan ls) = dart_scan ls"
    by (rule dart_scan_fixed) (simp add: dart_scan_kept)
  have s: "swift_scan (swift_scan ls) = swift_scan ls"
    by (rule swift_scan_fixed) (simp add: swift_scan_kept)
  show ?thesis
    using second_run_removes_nothing[of w root s1 s2] two_runs_return[of w "init root"]
    by (simp add: d s lines_removed_def)
qed

theorem filters_idempotent_witness:
  "no_faults example_world \<and> no_print_faults example_world \<and> no_stat_faults example_world \<and>
   (\<exists>t1 t2. run (init [ascii ''proj''], example_world) = Inr t1 \<and>
      total_lines_removed (fst t1) = 2 \<and>
      run (init [ascii ''proj''], snd t1) = Inr t2 \<and>
      total_lines_removed (fst t2) = 0 \<and> files (snd t2) = files (snd t1) \<and>
      opened_for_write (snd t2) = opened_for_write (snd t1))"
proof -
  from ex_run1 obtain t1 where
    r1: "run (init [ascii ''proj''], example_world) = Inr t1"
    and n1: "total_lines_removed (fst t1) = 2"
    by auto
  from filters_idempotent[of "[]" example_world "[ascii ''proj'']" t1] r1 ex_no_faults
  obtain u1 t2 where "run (init [ascii ''proj''], example_world) = Inr u1"
    and r2: "run (init [ascii ''proj''], snd u1) = Inr t2"
    by blast
  with r1 have r2': "run (init [ascii ''proj''], snd t1) = Inr t2" by simp
  from filters_idempotent[of "[]" example_world "[ascii ''proj'']" t1 t2] r1 r2' ex_no_faults
  have "total_lines_removed (fst t2) = 0 \<and> files (snd t2) = files (snd t1) \<and>
      opened_for_write (snd t2) = opened_for_write (snd t1)"
    by blast
  with r1 n1 r2' ex_no_faults show ?thesis by blast
qed

text \<open>
  C6. The output of either filter is a subsequence of its input: its lines are lines of
  the input, in their original order, and there are no more of them than in the input.
\<close>

theorem filters_output_subsequence:
  "subseq (dart_scan ls) ls \<and> set (dart_scan ls) \<subseteq> set ls \<and>
   length (dart_scan ls) \<le> length ls \<and>
   subseq (swift_scan ls) ls \<and> set (swift_scan ls) \<subseteq> set ls \<and>
   length (swift_scan ls) \<le> length ls"
  using dart_scan_subseq[of ls] swift_scan_subseq[of ls]
  by (auto dest: list_emb_set list_emb_length)

section \<open>The cleaning functions and the run: writes, failures, counters\<close>

text \<open>
  C7. When the lines read from a file contain no block opener and no line matching a
  per-line pattern, the filter returns them unchanged, the count of removed lines is 0,
  and the cleaning function returns 0 leaving the world as it is: no file is opened for
  writing and nothing is printed. In general a call, however it ends, opens the file for
  writing exactly when the read succeeded and the count is positive, and then once. In a
  run, however it ends, when the directory walk yields no path twice and no path for
  both patterns, no path is opened for writing twice.
\<close>

theorem unmatched_file_not_rewritten:
  "(read_lines w p = Inr ls \<longrightarrow>
      (\<forall>l\<in>set ls. \<not> re_match dart_block_start l \<and> \<not> should_remove dart_patterns l) \<longrightarrow>
      dart_scan ls = ls \<and> lines_removed ls (dart_scan ls) = 0 \<and>
      clean_dart_file p (self, w) =
        Inr (0, self\<lparr>dart_files_processed := dart_files_processed self + 1\<rparr>, w)) \<and>
   (read_lines w p = Inr ls \<longrightarrow>
      (\<forall>l\<in>set ls. \<not> re_match swift_block_start l \<and> \<not> should_remove swift_patterns l) \<longrightarrow>
      swift_scan ls = ls \<and> lines_removed ls (swift_scan ls) = 0 \<and>
      clean_swift_file p (self, w) =
        Inr (0, self\<lparr>swift_files_processed := swift_files_processed self + 1\<rparr>, w)) \<and>
   opened_for_write (snd (call_state (clean_dart_file p (self, w)))) =
     opened_for_write w @
     (case read_lines w p of Inl e \<Rightarrow> []
      | Inr lines \<Rightarrow> if 0 < lines_removed lines (dart_scan lines) then [p] else []) \<and>
   opened_for_write (snd (call_state (clean_swift_file p (self, w)))) =
     opened_for_write w @
     (case read_lines w p of Inl e \<Rightarrow> []
      | Inr lines \<Rightarrow> if 0 < lines_removed lines (swift_scan lines) then [p] else []) \<and>
   (distinct (rglob w (ascii ''*.dart'') @ rglob w (ascii ''*.swift'')) \<longrightarrow>
      (\<exists>new. opened_for_write (snd (run_state (run (self, w)))) = opened_for_write w @ new \<and>
         distinct new))"
proof (intro conjI impI)
  assume r: "read_lines w p = Inr ls"
    and c: "\<forall>l\<in>set ls. \<not> re_match dart_block_start l \<and> \<not> should_remove dart_patterns l"
  from c show f: "dart_scan ls = ls" by (rule dart_scan_fixed)
  then show z: "lines_removed ls (dart_scan ls) = 0" by (simp add: lines_removed_def)
  from r z show "clean_dart_file p (self, w) =
      Inr (0, self\<lparr>dart_files_processed := dart_files_processed self + 1\<rparr>, w)"
    by (simp add: clean_dart_file_def dart_try_def Let_def)
next
  assume r: "read_lines w p = Inr ls"
    and c: "\<forall>l\<in>set ls. \<not> re_match swift_block_start l \<and> \<not> should_remove swift_patterns l"
  from c show f: "swift_scan ls = ls" by (rule swift_scan_fixed)
  then show z: "lines_removed ls (swift_scan ls) = 0" by (simp add: lines_removed_def)
  from r z show "clean_swift_file p (self, w) =
      Inr (0, self\<lparr>swift_files_processed := swift_files_processed self + 1\<rparr>, w)"
    by (simp add: clean_swift_file_def swift_try_def Let_def)
next
  obtain self' w' where c: "call_state (clean_dart_file p (self, w)) = (self', w')"
    by (cases "call_state (clean_dart_file p (self, w))") auto
  from clean_dart_frame[OF c] c
  show "opened_for_write (snd (call_state (clean_dart_file p (self, w)))) =
     opened_for_write w @
     (case read_lines w p of Inl e \<Rightarrow> []
      | Inr lines \<Rightarrow> if 0 < lines_removed lines (dart_scan lines) then [p] else [])"
    by simp
next
  obtain self' w' where c: "call_state (clean_swift_file p (self, w)) = (self', w')"
    by (cases "call_state (clean_swift_file p (self, w))") auto
  from clean_swift_frame[OF c] c
  show "opened_for_write (snd (call_state (clean_swift_file p (self, w)))) =
     opened_for_write w @
     (case read_lines w p of Inl e \<Rightarrow> []
      | Inr lines \<Rightarrow> if 0 < lines_removed lines (swift_scan lines) then [p] else [])"
    by simp
next
  assume "distinct (rglob w (ascii ''*.dart'') @ rglob w (ascii ''*.swift''))"
  then show "\<exists>new. opened_for_write (snd (run_state (run (self, w)))) =
      opened_for_write w @ new \<and> distinct new"
    by (rule run_opened)
qed

theorem unmatched_file_not_rewritten_witness:
  "read_lines example_world [ascii ''proj'', ascii ''c.dart''] =
     Inr [ascii ''return;'' @ [newline]] \<and>
   dart_scan [ascii ''return;'' @ [newline]] = [ascii ''return;'' @ [newline]] \<and>
   clean_dart_file [ascii ''proj'', ascii ''c.dart''] (init [ascii ''proj''], example_world) =
     Inr (0, (init [ascii ''proj''])\<lparr>dart_files_processed := 1\<rparr>, example_world) \<and>
   read_lines example_world [ascii ''proj'', ascii ''d.swift''] =
     Inr [ascii ''return'' @ [newline]] \<and>
   swift_scan [ascii ''return'' @ [newline]] = [ascii ''return'' @ [newline]] \<and>
   clean_swift_file [ascii ''proj'', ascii ''d.swift''] (init [ascii ''proj''], example_world) =
     Inr (0, (init [ascii ''proj''])\<lparr>swift_files_processed := 1\<rparr>, example_world) \<and>
   distinct (rglob example_world (ascii ''*.dart'') @ rglob example_world (ascii ''*.swift'')) \<and>
   (\<exists>new. opened_for_write (snd (run_state (run (init [ascii ''proj''], example_world)))) =
      opened_for_write example_world @ new \<and> distinct new)"
  using unmatched_file_not_rewritten[of example_world "[ascii ''proj'', ascii ''c.dart'']"
      "[ascii ''return;'' @ [newline]]" "init [ascii ''proj'']"]
    unmatched_file_not_rewritten[of example_world "[ascii ''proj'', ascii ''d.swift'']"
      "[ascii ''return'' @ [newline]]" "init [ascii ''proj'']"]
    ex_read_c ex_read_d ex_clean_c ex_clean_d ex_distinct
  by (simp add: init_def)






text \<open>
  C10. When the \<open>try\<close> body of a cleaning function raises, the files-processed
  counter of its language is what it was before the call, however the call ends, and
  the function returns 0 when the handler's \<open>print\<close> does not raise. When the body
  returns, the function returns its count, the counter has grown by exactly 1, and the
  file has been opened for writing by then if and only if the count is positive.
\<close>

theorem failed_file_not_counted:
  "(dart_try p (self, w) = Inl (e, self', w') \<longrightarrow>
      dart_files_processed self' = dart_files_processed self \<and>
      dart_files_processed (fst (call_state (clean_dart_file p (self, w)))) =
        dart_files_processed self \<and>
      (print_fault w' (console w') (ErrorProcessing (name p) e) = None \<longrightarrow>
         clean_dart_file p (self, w) =
           Inr (0, self', w'\<lparr>console := console w' @ [ErrorProcessing (name p) e]\<rparr>))) \<and>
   (dart_try p (self, w) = Inr (n, self', w') \<longrightarrow>
      clean_dart_file p (self, w) = Inr (n, self', w') \<and>
      dart_files_processed self' = dart_files_processed self + 1 \<and>
      opened_for_write w' = opened_for_write w @ (if 0 < n then [p] else [])) \<and>
   (swift_try p (self, w) = Inl (e, self', w') \<longrightarrow>
      swift_files_processed self' = swift_files_processed self \<and>
      swift_files_processed (fst (call_state (clean_swift_file p (self, w)))) =
        swift_files_processed self \<and>
      (print_fault w' (console w') (ErrorProcessing (name p) e) = None \<longrightarrow>
         clean_swift_file p (self, w) =
           Inr (0, self', w'\<lparr>console := console w' @ [ErrorProcessing (name p) e]\<rparr>))) \<and>
   (swift_try p (self, w) = Inr (n, self', w') \<longrightarrow>
      clean_swift_file p (self, w) = Inr (n, self', w') \<and>
      swift_files_processed self' = swift_files_processed self + 1 \<and>
      opened_for_write w' = opened_for_write w @ (if 0 < n then [p] else []))"
proof (intro conjI impI)
  assume a: "dart_try p (self, w) = Inl (e, self', w')"
  from dart_try_Inl_counter[OF a]
  show "dart_files_processed self' = dart_files_processed self" by simp
  from dart_try_Inl_counter[OF a]
  show "dart_files_processed (fst (call_state (clean_dart_file p (self, w)))) =
      dart_files_processed self"
    by (simp add: clean_dart_of_try_Inl[OF a] call_state_def split: option.splits)
  assume "print_fault w' (console w') (ErrorProcessing (name p) e) = None"
  then show "clean_dart_file p (self, w) =
      Inr (0, self', w'\<lparr>console := console w' @ [ErrorProcessing (name p) e]\<rparr>)"
    by (simp add: clean_dart_of_try_Inl[OF a])
next
  assume a: "dart_try p (self, w) = Inr (n, self', w')"
  then show "clean_dart_file p (self, w) = Inr (n, self', w')"
    by (rule clean_dart_of_try_Inr)
  from dart_try_Inr_counter[OF a]
  show "dart_files_processed self' = dart_files_processed self + 1"
    and "opened_for_write w' = opened_for_write w @ (if 0 < n then [p] else [])"
    by simp_all
next
  assume a: "swift_try p (self, w) = Inl (e, self', w')"
  from swift_try_Inl_counter[OF a]
  show "swift_files_processed self' = swift_files_processed self" by simp
  from swift_try_Inl_counter[OF a]
  show "swift_files_processed (fst (call_state (clean_swift_file p (self, w)))) =
      swift_files_processed self"
    by (simp add: clean_swift_of_try_Inl[OF a] call_state_def split: option.splits)
  assume "print_fault w' (console w') (ErrorProcessing (name p) e) = None"
  then show "clean_swift_file p (self, w) =
      Inr (0, self', w'\<lparr>console := console w' @ [ErrorProcessing (name p) e]\<rparr>)"
    by (simp add: clean_swift_of_try_Inl[OF a])
next
  assume a: "swift_try p (self, w) = Inr (n, self', w')"
  then show "clean_swift_file p (self, w) = Inr (n, self', w')"
    by (rule clean_swift_of_try_Inr)
  from swift_try_Inr_counter[OF a]
  show "swift_files_processed self' = swift_files_processed self + 1"
    and "opened_for_write w' = opened_for_write w @ (if 0 < n then [p] else [])"
    by simp_all
qed

theorem failed_file_not_counted_witness:
  "dart_try [ascii ''proj'', ascii ''c.dart''] (init [ascii ''proj''], faulty_world) =
     Inl (OSError ''Permission denied'', init [ascii ''proj''], faulty_world) \<and>
   print_fault faulty_world (console faulty_world)
     (ErrorProcessing (name [ascii ''proj'', ascii ''c.dart'']) (OSError ''Permission denied'')) =
     None \<and>
   clean_dart_file [ascii ''proj'', ascii ''c.dart''] (init [ascii ''proj''], faulty_world) =
     Inr (0, init [ascii ''proj''],
       faulty_world\<lparr>console :=
         [ErrorProcessing (ascii ''c.dart'') (OSError ''Permission denied'')]\<rparr>) \<and>
   dart_files_processed (fst (call_state (clean_dart_file [ascii ''proj'', ascii ''c.dart'']
     (init [ascii ''proj''], faulty_world)))) = 0 \<and>
   dart_try [ascii ''proj'', ascii ''c.dart''] (init [ascii ''proj''], example_world) =
     Inr (0, (init [ascii ''proj''])\<lparr>dart_files_processed := 1\<rparr>, example_world) \<and>
   clean_dart_file [ascii ''proj'', ascii ''c.dart''] (init [ascii ''proj''], example_world) =
     Inr (0, (init [ascii ''proj''])\<lparr>dart_files_processed := 1\<rparr>, example_world) \<and>
   swift_try [ascii ''proj'', ascii ''d.swift''] (init [ascii ''proj''], faulty_world) =
     Inl (UnicodeError ''invalid start byte'', init [ascii ''proj''], faulty_world) \<and>
   clean_swift_file [ascii ''proj'', ascii ''d.swift''] (init [ascii ''proj''], faulty_world) =
     Inr (0, init [ascii ''proj''],
       faulty_world\<lparr>console :=
         [ErrorProcessing (ascii ''d.swift'') (UnicodeError ''invalid start byte'')]\<rparr>) \<and>
   swift_files_processed (fst (call_state (clean_swift_file [ascii ''proj'', ascii ''d.swift'']
     (init [ascii ''proj''], faulty_world)))) = 0 \<and>
   swift_try [ascii ''proj'', ascii ''d.swift''] (init [ascii ''proj''], example_world) =
     Inr (0, (init [ascii ''proj''])\<lparr>swift_files_processed := 1\<rparr>, example_world) \<and>
   clean_swift_file [ascii ''proj'', ascii ''d.swift''] (init [ascii ''proj''], example_world) =
     Inr (0, (init [ascii ''proj''])\<lparr>swift_files_processed := 1\<rparr>, example_world)"
proof -
  have z1: "lines_removed [ascii ''return;'' @ [newline]]
      (dart_scan [ascii ''return;'' @ [newline]]) = 0"
    unfolding dart_scan_fixed[OF ex_clean_c] by (simp add: lines_removed_def)
  have z2: "lines_removed [ascii ''return'' @ [newline]]
      (swift_scan [ascii ''return'' @ [newline]]) = 0"
    unfolding swift_scan_fixed[OF ex_clean_d] by (simp add: lines_removed_def)
  have a: "dart_try [ascii ''proj'', ascii ''c.dart''] (init [ascii ''proj''], faulty_world) =
     Inl (OSError ''Permission denied'', init [ascii ''proj''], faulty_world)"
    by (rule dart_try_read_fails[OF ex_faulty_reads(1)])
  have b: "dart_try [ascii ''proj'', ascii ''c.dart''] (init [ascii ''proj''], example_world) =
     Inr (0, (init [ascii ''proj''])\<lparr>dart_files_processed := 1\<rparr>, example_world)"
    using dart_try_unchanged[OF ex_read_c, of "init [ascii ''proj'']"] z1 by (simp add: init_def)
  have c: "swift_try [ascii ''proj'', ascii ''d.swift''] (init [ascii ''proj''], faulty_world) =
     Inl (UnicodeError ''invalid start byte'', init [ascii ''proj''], faulty_world)"
    by (rule swift_try_read_fails[OF ex_faulty_reads(2)])
  have d: "swift_try [ascii ''proj'', ascii ''d.swift''] (init [ascii ''proj''], example_world) =
     Inr (0, (init [ascii ''proj''])\<lparr>swift_files_processed := 1\<rparr>, example_world)"
    using swift_try_unchanged[OF ex_read_d, of "init [ascii ''proj'']"] z2 by (simp add: init_def)
  have p: "print_fault faulty_world (console faulty_world)
     (ErrorProcessing (name [ascii ''proj'', ascii ''c.dart'']) (OSError ''Permission denied'')) =
     None"
    by (rule ex_faulty_prints(1))
  note t1 = failed_file_not_counted[of "[ascii ''proj'', ascii ''c.dart'']" "init [ascii ''proj'']"
      faulty_world "OSError ''Permission denied''" "init [ascii ''proj'']" faulty_world 0]
  note t2 = failed_file_not_counted[of "[ascii ''proj'', ascii ''c.dart'']" "init [ascii ''proj'']"
      example_world "OSError []" "(init [ascii ''proj''])\<lparr>dart_files_processed := 1\<rparr>"
      example_world 0]
  note t3 = failed_file_not_counted[of "[ascii ''proj'', ascii ''d.swift'']" "init [ascii ''proj'']"
      faulty_world "UnicodeError ''invalid start byte''" "init [ascii ''proj'']" faulty_world 0]
  note t4 = failed_file_not_counted[of "[ascii ''proj'', ascii ''d.swift'']" "init [ascii ''proj'']"
      example_world "OSError []" "(init [ascii ''proj''])\<lparr>swift_files_processed := 1\<rparr>"
      example_world 0]
  from t1 a ex_faulty_prints ex_names
  have a': "clean_dart_file [ascii ''proj'', ascii ''c.dart''] (init [ascii ''proj''], faulty_world) =
     Inr (0, init [ascii ''proj''],
       faulty_world\<lparr>console :=
         [ErrorProcessing (ascii ''c.dart'') (OSError ''Permission denied'')]\<rparr>)"
    "dart_files_processed (fst (call_state (clean_dart_file [ascii ''proj'', ascii ''c.dart'']
     (init [ascii ''proj''], faulty_world)))) = 0"
    by (simp_all add: init_def call_state_def)
  from t2 b
  have b': "clean_dart_file [ascii ''proj'', ascii ''c.dart''] (init [ascii ''proj''], example_world) =
     Inr (0, (init [ascii ''proj''])\<lparr>dart_files_processed := 1\<rparr>, example_world)"
    by simp
  from t3 c ex_faulty_prints ex_names
  have c': "clean_swift_file [ascii ''proj'', ascii ''d.swift''] (init [ascii ''proj''], faulty_world) =
     Inr (0, init [ascii ''proj''],
       faulty_world\<lparr>console :=
         [ErrorProcessing (ascii ''d.swift'') (UnicodeError ''invalid start byte'')]\<rparr>)"
    "swift_files_processed (fst (call_state (clean_swift_file [ascii ''proj'', ascii ''d.swift'']
     (init [ascii ''proj''], faulty_world)))) = 0"
    by (simp_all add: init_def call_state_def)
  from t4 d
  have d': "clean_swift_file [ascii ''proj'', ascii ''d.swift''] (init [ascii ''proj''], example_world) =
     Inr (0, (init [ascii ''proj''])\<lparr>swift_files_processed := 1\<rparr>, example_world)"
    by simp
  show ?thesis using a p a' b b' c c' d d' by (intro conjI) assumption+
qed

text \<open>
  The function does not return 0 whenever the body raises: when the handler's
  \<open>print\<close> raises, its exception leaves the function.
\<close>

theorem failed_call_can_raise:
  "dart_try [ascii ''proj'', ascii ''c.dart''] (init [ascii ''proj''], mute_world) =
     Inl (OSError ''Permission denied'', init [ascii ''proj''], mute_world) \<and>
   clean_dart_file [ascii ''proj'', ascii ''c.dart''] (init [ascii ''proj''], mute_world) =
     Inl (UnicodeError ''surrogates not allowed'', init [ascii ''proj''], mute_world) \<and>
   swift_try [ascii ''proj'', ascii ''d.swift''] (init [ascii ''proj''], mute_world) =
     Inl (UnicodeError ''invalid start byte'', init [ascii ''proj''], mute_world) \<and>
   clean_swift_file [ascii ''proj'', ascii ''d.swift''] (init [ascii ''proj''], mute_world) =
     Inl (UnicodeError ''surrogates not allowed'', init [ascii ''proj''], mute_world)"
proof -
  have r1: "read_lines mute_world [ascii ''proj'', ascii ''c.dart''] =
      Inl (OSError ''Permission denied'')"
    by (simp add: example_defs ascii_def)
  have r2: "read_lines mute_world [ascii ''proj'', ascii ''d.swift''] =
      Inl (UnicodeError ''invalid start byte'')"
    by (simp add: example_defs ascii_def)
  have p: "print_fault mute_world c (ErrorProcessing n e) =
      Some (UnicodeError ''surrogates not allowed'')" for c n e
    by (simp add: example_defs is_error_def)
  note a = dart_try_read_fails[OF r1, of "init [ascii ''proj'']"]
  note b = swift_try_read_fails[OF r2, of "init [ascii ''proj'']"]
  have c: "clean_dart_file [ascii ''proj'', ascii ''c.dart''] (init [ascii ''proj''], mute_world) =
     Inl (UnicodeError ''surrogates not allowed'', init [ascii ''proj''], mute_world)"
    by (simp add: clean_dart_of_try_Inl[OF a] p)
  have d: "clean_swift_file [ascii ''proj'', ascii ''d.swift''] (init [ascii ''proj''], mute_world) =
     Inl (UnicodeError ''surrogates not allowed'', init [ascii ''proj''], mute_world)"
    by (simp add: clean_swift_of_try_Inl[OF b] p)
  show ?thesis using a b c d by (intro conjI) assumption+
qed

end
